theory Spec2Isabelle
  imports Main "HOL-Library.Word"
begin

unbundle bit_operations_syntax

section \<open>The spawner of \<^verbatim>\<open>src/pk-spawn.c\<close>\<close>

text \<open>
  \<^verbatim>\<open>PkSpawn\<close> owns at most one helper process, feeds it commands on stdin, drains its
  stdout line by line from a 50 ms poll source, and classifies its exit. The code is
  single-threaded: every function below runs on the GLib main loop.

  The embedding is shallow. Each C function becomes a HOL function on a record of the
  private struct, extended by the part of the outside world the functions act on:
  the timeout sources attached to the GLib main context and the ordered trace of what
  the object did (signals emitted to its listeners, system calls issued). What the
  operating system answers (the bytes \<^verbatim>\<open>read\<close> delivers, the results of
  \<^verbatim>\<open>waitpid\<close>, \<^verbatim>\<open>write\<close>, \<^verbatim>\<open>kill\<close> and of the process launcher) is an
  argument of the function that asks.

  \<^verbatim>\<open>gint\<close> is \<open>int\<close> and \<^verbatim>\<open>guint\<close> is \<open>nat\<close>: lengths, byte counts and source
  identifiers stay far below \<open>2 ^ 31\<close> in every run of the daemon, so no wrap-around is
  written out. The wait status is a \<open>32 word\<close>, since it is taken apart bitwise.
  Strings are byte lists; a C string ends at its first NUL byte (\<open>c_str\<close>).
  Listeners of the two GObject signals are outside the object and are taken not to
  call back into it while a signal is emitted. \<^verbatim>\<open>pk_spawn_finalize\<close> is not modelled.
\<close>

subsection \<open>Data\<close>

text \<open>
  Modelled from the spec: the enum \<^verbatim>\<open>PkSpawnExitType\<close> is declared in
  \<^verbatim>\<open>pk-spawn.h\<close>; the spec lists its closed set of classifications.
\<close>

datatype PkSpawnExitType =
    PK_SPAWN_EXIT_TYPE_SUCCESS
  | PK_SPAWN_EXIT_TYPE_FAILED
  | PK_SPAWN_EXIT_TYPE_SIGQUIT
  | PK_SPAWN_EXIT_TYPE_SIGKILL
  | PK_SPAWN_EXIT_TYPE_DISPATCHER_CHANGED
  | PK_SPAWN_EXIT_TYPE_DISPATCHER_EXIT
  | PK_SPAWN_EXIT_TYPE_UNKNOWN

datatype signum = SIGQUIT | SIGKILL

text \<open>The two \<^verbatim>\<open>GSourceFunc\<close> callbacks the file attaches with \<^verbatim>\<open>g_timeout_add\<close>.\<close>

datatype callback = PK_SPAWN_CHECK_CHILD | PK_SPAWN_SIGKILL_CB

text \<open>What the object does to the outside, in the order it does it.\<close>

datatype action =
    Emit_stdout string
  | Emit_exit PkSpawnExitType
  | Sys_kill int signum
  | Sys_write int string
  | Sys_close int
  | Sys_spawn "string list" "string list option"
  | Sys_setpriority int int

text \<open>
  \<^verbatim>\<open>struct PkSpawnPrivate\<close>. \<open>exit_loop\<close> holds whether the \<^verbatim>\<open>GMainLoop\<close> is running
  (what \<^verbatim>\<open>g_main_loop_is_running\<close> reads), \<open>conf\<close> the integer the configuration
  gives for \<^verbatim>\<open>BackendSpawnNiceValue\<close>; an absent string or vector (\<^verbatim>\<open>NULL\<close>) is \<open>None\<close>.
\<close>

record PkSpawnPrivate =
  child_pid :: int
  stdin_fd :: int
  stdout_fd :: int
  poll_id :: nat
  kill_id :: nat
  finished :: bool
  is_sending_exit :: bool
  is_changing_dispatcher :: bool
  exit :: PkSpawnExitType
  exit_loop :: bool
  stdout_buf :: string
  last_argv0 :: "string option"
  last_envp :: "string list option"
  conf :: int

text \<open>
  The object together with the main context it is attached to: the timeout sources
  still attached (identifier, interval in ms, callback), the next identifier
  \<^verbatim>\<open>g_timeout_add\<close> hands out, and the trace.
\<close>

record world = PkSpawnPrivate +
  sources :: "(nat \<times> nat \<times> callback) list"
  next_source :: nat
  trace :: "action list"

text \<open>How a call ends: it returns a value, it never returns, or the process is aborted.\<close>

datatype 'a outcome = Returns 'a world | Blocks world | Aborts world

definition PK_SPAWN_POLL_DELAY :: nat where
  "PK_SPAWN_POLL_DELAY = 50"

definition PK_SPAWN_SIGKILL_DELAY :: nat where
  "PK_SPAWN_SIGKILL_DELAY = 500"

text \<open>\<^verbatim>\<open>errno.h\<close> on Linux.\<close>

definition EPERM :: int where
  "EPERM = 1"

definition EINVAL :: int where
  "EINVAL = 22"

abbreviation LF :: char where "LF \<equiv> CHR 0x0A"
abbreviation TAB :: char where "TAB \<equiv> CHR 0x09"
abbreviation NUL :: char where "NUL \<equiv> CHR 0x00"

subsection \<open>Library functions the file calls\<close>

definition c_str :: "string \<Rightarrow> string" where
  "c_str s = takeWhile (\<lambda>c. c \<noteq> NUL) s"

text \<open>
  \<^verbatim>\<open>WEXITSTATUS\<close> of \<^verbatim>\<open>sys/wait.h\<close>: bits 8 to 15 of the wait status.
\<close>

definition WEXITSTATUS :: "32 word \<Rightarrow> int" where
  "WEXITSTATUS status = uint (drop_bit 8 (status AND 0xff00))"

text \<open>
  \<^verbatim>\<open>g_strsplit (s, delimiter, 0)\<close> for a one-byte delimiter: the pieces between the
  delimiters, one more than there are delimiters; the empty string gives the empty
  vector.
\<close>

fun split_on :: "char \<Rightarrow> string \<Rightarrow> string list" where
  "split_on d [] = [[]]"
| "split_on d (c # cs) =
     (if c = d then [] # split_on d cs
      else (case split_on d cs of
              [] \<Rightarrow> [[c]]
            | l # ls \<Rightarrow> (c # l) # ls))"

definition g_strsplit :: "string \<Rightarrow> char \<Rightarrow> string list" where
  "g_strsplit s d = (if s = [] then [] else split_on d s)"

text \<open>\<^verbatim>\<open>g_strjoinv (separator, strv)\<close> for a one-byte separator.\<close>

fun g_strjoinv :: "char \<Rightarrow> string list \<Rightarrow> string" where
  "g_strjoinv sep [] = []"
| "g_strjoinv sep [x] = x"
| "g_strjoinv sep (x # y # ys) = x @ sep # g_strjoinv sep (y # ys)"

text \<open>\<^verbatim>\<open>g_string_erase (string, pos, len)\<close> with \<open>pos + len\<close> inside the string.\<close>

definition g_string_erase :: "string \<Rightarrow> nat \<Rightarrow> nat \<Rightarrow> string" where
  "g_string_erase s pos len = take pos s @ drop (pos + len) s"

text \<open>
  \<^verbatim>\<open>g_timeout_add\<close> attaches a source under a fresh identifier; \<^verbatim>\<open>g_source_remove\<close>
  detaches the source of that identifier.
\<close>

definition g_timeout_add :: "nat \<Rightarrow> callback \<Rightarrow> world \<Rightarrow> nat \<times> world" where
  "g_timeout_add interval f w =
     (next_source w,
      w\<lparr>sources := sources w @ [(next_source w, interval, f)],
        next_source := Suc (next_source w)\<rparr>)"

definition g_source_remove :: "nat \<Rightarrow> world \<Rightarrow> world" where
  "g_source_remove tag w = w\<lparr>sources := filter (\<lambda>src. fst src \<noteq> tag) (sources w)\<rparr>"

text \<open>
  Modelled from the spec: \<^verbatim>\<open>egg_strzero\<close>, \<^verbatim>\<open>egg_strequal\<close> and \<^verbatim>\<open>egg_strvequal\<close>
  live in \<^verbatim>\<open>egg-string.c\<close>. The first tells whether there is nothing to emit; the
  second is string equality with the stored executable (none stored equals nothing);
  the third compares two environment vectors element by element and in order, absent
  equal to absent only.
\<close>

definition egg_strzero :: "string \<Rightarrow> bool" where
  "egg_strzero text = (text = [])"

definition egg_strequal :: "string option \<Rightarrow> string \<Rightarrow> bool" where
  "egg_strequal id1 id2 = (case id1 of None \<Rightarrow> False | Some s \<Rightarrow> s = id2)"

definition egg_strvequal :: "string list option \<Rightarrow> string list option \<Rightarrow> bool" where
  "egg_strvequal id1 id2 =
     (case (id1, id2) of
        (None, None) \<Rightarrow> True
      | (Some v1, Some v2) \<Rightarrow> length v1 = length v2 \<and> list_all2 (=) v1 v2
      | _ \<Rightarrow> False)"

subsection \<open>Construction\<close>

text \<open>\<^verbatim>\<open>pk_spawn_init\<close>, on a main context with no source of this object attached.\<close>

definition pk_spawn_init :: "int \<Rightarrow> world" where
  "pk_spawn_init nice =
     \<lparr>child_pid = -1, stdin_fd = -1, stdout_fd = -1, poll_id = 0, kill_id = 0,
      finished = False, is_sending_exit = False, is_changing_dispatcher = False,
      exit = PK_SPAWN_EXIT_TYPE_UNKNOWN, exit_loop = False, stdout_buf = [],
      last_argv0 = None, last_envp = None, conf = nice,
      sources = [], next_source = 1, trace = []\<rparr>"

subsection \<open>Draining stdout\<close>

text \<open>
  \<^verbatim>\<open>pk_spawn_read_fd_into_buffer\<close>: every \<^verbatim>\<open>read\<close> that delivers bytes is
  NUL-terminated and appended as a C string. The argument is the list of chunks the
  successive reads deliver before one returns nothing.
\<close>

definition pk_spawn_read_fd_into_buffer :: "string list \<Rightarrow> string \<Rightarrow> string" where
  "pk_spawn_read_fd_into_buffer chunks string = foldl (\<lambda>s buffer. s @ c_str buffer) string chunks"

text \<open>
  \<^verbatim>\<open>pk_spawn_emit_whole_lines\<close> on \<^verbatim>\<open>spawn->priv->stdout_buf\<close>, its only caller's
  argument. \<^verbatim>\<open>g_strsplit\<close> never returns \<^verbatim>\<open>NULL\<close>, so that test has no branch here.
\<close>

definition emit_lines :: "string list \<Rightarrow> world \<times> nat \<Rightarrow> world \<times> nat" where
  "emit_lines ls acc =
     fold (\<lambda>l (w, bytes_processed).
             (w\<lparr>trace := trace w @ [Emit_stdout l]\<rparr>, bytes_processed + (length l + 1)))
          ls acc"

definition pk_spawn_emit_whole_lines :: "world \<Rightarrow> bool \<times> world" where
  "pk_spawn_emit_whole_lines w =
     (let str = c_str (stdout_buf w) in
      if egg_strzero str then (False, w)
      else
        let lines = g_strsplit str LF;
            size = length lines;
            (w1, bytes_processed) = emit_lines (take (size - 1) lines) (w, 0)
        in (True, w1\<lparr>stdout_buf := g_string_erase (stdout_buf w1) 0 bytes_processed\<rparr>))"

subsection \<open>The poll tick\<close>

text \<open>
  \<^verbatim>\<open>pk_spawn_check_child\<close>. \<open>chunks\<close> is what the pipe delivers, \<open>wpid\<close> and
  \<open>status\<close> what \<^verbatim>\<open>waitpid (child_pid, &status, WNOHANG)\<close> returns and stores.
\<close>

definition pk_spawn_check_child :: "string list \<Rightarrow> int \<Rightarrow> 32 word \<Rightarrow> world \<Rightarrow> bool \<times> world" where
  "pk_spawn_check_child chunks wpid status w =
     (if finished w then (False, w)
      else
        let w1 = w\<lparr>stdout_buf := pk_spawn_read_fd_into_buffer chunks (stdout_buf w)\<rparr>;
            w2 = snd (pk_spawn_emit_whole_lines w1)
        in if wpid \<noteq> child_pid w2 then (True, w2)
           else
             let w3 = (if poll_id w2 > 0
                       then (g_source_remove (poll_id w2) w2)\<lparr>poll_id := 0\<rparr> else w2);
                 w4 = w3\<lparr>trace := trace w3 @ [Sys_close (stdin_fd w3), Sys_close (stdout_fd w3)],
                         stdin_fd := -1, stdout_fd := -1, child_pid := -1\<rparr>;
                 w5 = (if WEXITSTATUS status > 0
                       then (if exit w4 = PK_SPAWN_EXIT_TYPE_UNKNOWN
                             then w4\<lparr>exit := PK_SPAWN_EXIT_TYPE_FAILED\<rparr> else w4)
                       else (if exit w4 = PK_SPAWN_EXIT_TYPE_UNKNOWN
                             then w4\<lparr>exit := PK_SPAWN_EXIT_TYPE_SUCCESS\<rparr> else w4));
                 w6 = w5\<lparr>finished := True\<rparr>;
                 w7 = (if kill_id w6 \<noteq> 0
                       then (g_source_remove (kill_id w6) w6)\<lparr>kill_id := 0\<rparr> else w6);
                 w8 = (if exit_loop w7
                       then let w' = w7\<lparr>exit_loop := False\<rparr>
                            in if is_changing_dispatcher w'
                               then w'\<lparr>exit := PK_SPAWN_EXIT_TYPE_DISPATCHER_CHANGED\<rparr>
                               else if is_sending_exit w'
                               then w'\<lparr>exit := PK_SPAWN_EXIT_TYPE_DISPATCHER_EXIT\<rparr>
                               else w'
                       else w7)
             in (False, w8\<lparr>trace := trace w8 @ [Emit_exit (exit w8)]\<rparr>))"

subsection \<open>Forced termination\<close>

text \<open>
  \<^verbatim>\<open>pk_spawn_sigkill_cb\<close> and \<^verbatim>\<open>pk_spawn_kill\<close>; \<open>retval\<close> is what the call of
  \<^verbatim>\<open>kill\<close> returns.
\<close>

definition pk_spawn_sigkill_cb :: "int \<Rightarrow> world \<Rightarrow> bool \<times> world" where
  "pk_spawn_sigkill_cb retval w =
     (if finished w then (False, w)
      else
        let w1 = w\<lparr>exit := PK_SPAWN_EXIT_TYPE_SIGKILL\<rparr>;
            w2 = w1\<lparr>trace := trace w1 @ [Sys_kill (child_pid w1) SIGKILL]\<rparr>
        in if retval = EINVAL then (False, w2)
           else if retval = EPERM then (False, w2)
           else (False, w2))"

definition pk_spawn_kill :: "int \<Rightarrow> world \<Rightarrow> bool \<times> world" where
  "pk_spawn_kill retval w =
     (if finished w then (False, w)
      else
        let w1 = w\<lparr>exit := PK_SPAWN_EXIT_TYPE_SIGQUIT\<rparr>;
            w2 = w1\<lparr>trace := trace w1 @ [Sys_kill (child_pid w1) SIGQUIT]\<rparr>
        in if retval = EINVAL then (False, w2)
           else if retval = EPERM then (False, w2)
           else
             let (tag, w3) = g_timeout_add PK_SPAWN_SIGKILL_DELAY PK_SPAWN_SIGKILL_CB w2
             in (True, w3\<lparr>kill_id := tag\<rparr>))"

text \<open>
  The convention of \<^verbatim>\<open>kill(2)\<close>: 0 when the signal was sent, \<open>-1\<close> with the reason in
  \<^verbatim>\<open>errno\<close> when it was not.
\<close>

datatype kill_result = Kill_sent | Kill_errno int

definition kill_retval :: "kill_result \<Rightarrow> int" where
  "kill_retval r = (case r of Kill_sent \<Rightarrow> 0 | Kill_errno e \<Rightarrow> -1)"

subsection \<open>Writing to the helper\<close>

text \<open>\<^verbatim>\<open>pk_spawn_send_stdin\<close>; \<open>wrote\<close> is what \<^verbatim>\<open>write\<close> returns.\<close>

definition pk_spawn_send_stdin :: "int \<Rightarrow> string \<Rightarrow> world \<Rightarrow> bool \<times> world" where
  "pk_spawn_send_stdin wrote command w =
     (if finished w then (False, w)
      else
        let buffer = command @ [LF];
            length = length buffer;
            w1 = w\<lparr>trace := trace w @ [Sys_write (stdin_fd w) buffer]\<rparr>
        in if wrote \<noteq> int length then (False, w1) else (True, w1))"

subsection \<open>The main loop\<close>

text \<open>
  One iteration of the main context dispatches one attached source. \<open>Dispatch tag sys\<close>
  says which source of this object is due and what the system calls of its callback
  will answer. A source whose callback returns \<^verbatim>\<open>FALSE\<close> is detached; an identifier
  that is not attached dispatches nothing. \<open>Invoke_kill retval\<close> is a source of
  another owner (a cancel timeout as in the tests of the file, a request handler) whose
  callback calls \<^verbatim>\<open>pk_spawn_kill\<close>, with \<open>retval\<close> what \<^verbatim>\<open>kill\<close> returns. Sources of
  other owners that call \<^verbatim>\<open>pk_spawn_argv\<close> from inside the nested loop of
  \<^verbatim>\<open>pk_spawn_exit\<close> are not modelled.
\<close>

record syscalls =
  read_chunks :: "string list"
  waitpid_ret :: int
  waitpid_status :: "32 word"
  kill_ret :: int

datatype event = Dispatch nat syscalls | Invoke_kill int

definition run_callback :: "callback \<Rightarrow> syscalls \<Rightarrow> world \<Rightarrow> bool \<times> world" where
  "run_callback f sys w =
     (case f of
        PK_SPAWN_CHECK_CHILD \<Rightarrow>
          pk_spawn_check_child (read_chunks sys) (waitpid_ret sys) (waitpid_status sys) w
      | PK_SPAWN_SIGKILL_CB \<Rightarrow> pk_spawn_sigkill_cb (kill_ret sys) w)"

fun dispatch :: "event \<Rightarrow> world \<Rightarrow> world" where
  "dispatch (Dispatch tag sys) w =
     (case map_of (sources w) tag of
        None \<Rightarrow> w
      | Some (interval, f) \<Rightarrow>
          (let (again, w1) = run_callback f sys w
           in if again then w1 else g_source_remove tag w1))"
| "dispatch (Invoke_kill retval) w = snd (pk_spawn_kill retval w)"

text \<open>
  \<^verbatim>\<open>g_main_loop_run (exit_loop)\<close>: mark the loop running and iterate until a callback
  has quit it. The events are the iterations the main context will make; when they
  run out with the loop still running, the call never returns. The loop is quit by the
  reap alone, which sets \<open>finished\<close>; what the main context may still dispatch in
  that same iteration (a leftover SIGKILL timeout, a call of \<^verbatim>\<open>pk_spawn_kill\<close>) then
  finds the child finished and changes nothing, so the model returns at once.
\<close>

fun main_loop_iterate :: "event list \<Rightarrow> world \<Rightarrow> unit outcome" where
  "main_loop_iterate [] w = Blocks w"
| "main_loop_iterate (e # es) w =
     (let w1 = dispatch e w
      in if exit_loop w1 then main_loop_iterate es w1 else Returns () w1)"

definition g_main_loop_run :: "event list \<Rightarrow> world \<Rightarrow> unit outcome" where
  "g_main_loop_run evs w = main_loop_iterate evs (w\<lparr>exit_loop := True\<rparr>)"

subsection \<open>Graceful exit\<close>

text \<open>
  \<^verbatim>\<open>pk_spawn_exit\<close>; \<open>wrote\<close> answers the write of the exit line, \<open>evs\<close> are the
  iterations of the nested main loop.
\<close>

definition pk_spawn_exit :: "int \<Rightarrow> event list \<Rightarrow> world \<Rightarrow> bool outcome" where
  "pk_spawn_exit wrote evs w =
     (if is_sending_exit w then Returns False w
      else
        let w1 = w\<lparr>is_sending_exit := True\<rparr>;
            (ret, w2) = pk_spawn_send_stdin wrote ''exit'' w1
        in if ret
           then (case g_main_loop_run evs w2 of
                   Returns u w3 \<Rightarrow> Returns ret (w3\<lparr>is_sending_exit := False\<rparr>)
                 | Blocks w3 \<Rightarrow> Blocks w3
                 | Aborts w3 \<Rightarrow> Aborts w3)
           else Returns ret (w2\<lparr>is_sending_exit := False\<rparr>))"

subsection \<open>Launch and reuse\<close>

text \<open>
  What the system answers during one \<^verbatim>\<open>pk_spawn_argv\<close>: to the write of the reused
  command line, to the write of the exit line and in the nested loop of the graceful
  exit, and to \<^verbatim>\<open>g_spawn_async_with_pipes\<close>, which on success stores the child's pid
  and the two pipe ends and on failure leaves the three fields as they were.
\<close>

record launch_sys =
  reuse_wrote :: int
  exit_wrote :: int
  exit_events :: "event list"
  spawn_result :: "(int \<times> int \<times> int) option"

definition CLAMP :: "int \<Rightarrow> int \<Rightarrow> int \<Rightarrow> int" where
  "CLAMP x low high = (if x > high then high else if x < low then low else x)"

text \<open>
  Lines 417 to 421 of \<^verbatim>\<open>pk_spawn_argv\<close>: exit the old instance because the
  dispatcher changes.
\<close>

definition change_dispatcher :: "launch_sys \<Rightarrow> world \<Rightarrow> unit outcome" where
  "change_dispatcher sys w =
     (let w1 = w\<lparr>is_changing_dispatcher := True\<rparr>
      in case pk_spawn_exit (exit_wrote sys) (exit_events sys) w1 of
           Returns r w2 \<Rightarrow> Returns () (w2\<lparr>is_changing_dispatcher := False\<rparr>)
         | Blocks w2 \<Rightarrow> Blocks w2
         | Aborts w2 \<Rightarrow> Aborts w2)"

text \<open>
  Lines 424 to 470 of \<^verbatim>\<open>pk_spawn_argv\<close>: create the new instance. \<^verbatim>\<open>egg_error\<close>
  ends the process. \<^verbatim>\<open>fcntl\<close> on the new pipe leaves no trace here.
\<close>

definition spawn_instance :: "launch_sys \<Rightarrow> string \<Rightarrow> string list \<Rightarrow> string list option \<Rightarrow> world \<Rightarrow> bool outcome" where
  "spawn_instance sys argv0 args envp w =
     (let w1 = w\<lparr>finished := False\<rparr>;
          w2 = w1\<lparr>trace := trace w1 @ [Sys_spawn (argv0 # args) envp]\<rparr>;
          (ret, w3) = (case spawn_result sys of
                         Some (pid, fd_in, fd_out) \<Rightarrow>
                           (True, w2\<lparr>child_pid := pid, stdin_fd := fd_in, stdout_fd := fd_out\<rparr>)
                       | None \<Rightarrow> (False, w2));
          nice = CLAMP (conf w3) (-20) 19;
          w4 = (if nice \<noteq> 0
                then w3\<lparr>trace := trace w3 @ [Sys_setpriority (child_pid w3) nice]\<rparr> else w3)
      in if \<not> ret then Returns False w4
         else
           let w5 = w4\<lparr>last_argv0 := Some argv0, last_envp := envp\<rparr>
           in if poll_id w5 \<noteq> 0 then Aborts w5
              else
                let (tag, w6) = g_timeout_add PK_SPAWN_POLL_DELAY PK_SPAWN_CHECK_CHILD w5
                in Returns True (w6\<lparr>poll_id := tag\<rparr>))"

text \<open>
  \<^verbatim>\<open>pk_spawn_argv\<close> for a vector \<^verbatim>\<open>argv\<close> with at least the executable: \<open>argv0\<close> is
  \<^verbatim>\<open>argv[0]\<close> and \<open>args\<close> the vector \<^verbatim>\<open>&argv[1]\<close>.
\<close>

definition pk_spawn_argv :: "launch_sys \<Rightarrow> string \<Rightarrow> string list \<Rightarrow> string list option \<Rightarrow> world \<Rightarrow> bool outcome" where
  "pk_spawn_argv sys argv0 args envp w =
     (let respawn = (\<lambda>w'. case change_dispatcher sys w' of
                             Returns u w'' \<Rightarrow> spawn_instance sys argv0 args envp w''
                           | Blocks w'' \<Rightarrow> Blocks w''
                           | Aborts w'' \<Rightarrow> Aborts w'')
      in if stdin_fd w \<noteq> -1
         then (if \<not> egg_strequal (last_argv0 w) argv0 then respawn w
               else if \<not> egg_strvequal (last_envp w) envp then respawn w
               else
                 let command = g_strjoinv TAB args;
                     (ret, w1) = pk_spawn_send_stdin (reuse_wrote sys) command w
                 in if ret then Returns True w1 else respawn w1)
         else spawn_instance sys argv0 args envp w)"

subsection \<open>Executions\<close>

text \<open>
  An execution is a sequence of steps on one object: a caller invokes one of the three
  public functions, or the main context dispatches a source. It stops where a call
  never returns or aborts the process.
\<close>

datatype step =
    Call_argv launch_sys string "string list" "string list option"
  | Call_kill int
  | Call_exit int "event list"
  | Iterate event

fun run_step :: "step \<Rightarrow> world \<Rightarrow> unit outcome" where
  "run_step (Call_argv sys argv0 args envp) w =
     (case pk_spawn_argv sys argv0 args envp w of
        Returns r w1 \<Rightarrow> Returns () w1 | Blocks w1 \<Rightarrow> Blocks w1 | Aborts w1 \<Rightarrow> Aborts w1)"
| "run_step (Call_kill retval) w = Returns () (snd (pk_spawn_kill retval w))"
| "run_step (Call_exit wrote evs) w =
     (case pk_spawn_exit wrote evs w of
        Returns r w1 \<Rightarrow> Returns () w1 | Blocks w1 \<Rightarrow> Blocks w1 | Aborts w1 \<Rightarrow> Aborts w1)"
| "run_step (Iterate e) w = Returns () (dispatch e w)"

fun exec :: "step list \<Rightarrow> world \<Rightarrow> world" where
  "exec [] w = w"
| "exec (s # ss) w =
     (case run_step s w of
        Returns u w1 \<Rightarrow> exec ss w1 | Blocks w1 \<Rightarrow> w1 | Aborts w1 \<Rightarrow> w1)"

subsection \<open>The poll tick, stage by stage\<close>

text \<open>
  The statements of \<^verbatim>\<open>pk_spawn_check_child\<close> after the test of \<open>finished\<close>, each
  named so that proofs can follow the function one statement at a time: the drain
  (lines 162 and 163), the removal of the poll source (173 to 177), the closing of the
  pipes (179 to 184), the default classification (186 to 193), the cancelling of the
  SIGKILL timeout (198 to 202), the release of a waiting \<^verbatim>\<open>pk_spawn_exit\<close> with its
  reclassification (204 to 214) and the emission of the exit signal (216 to 218).
\<close>

definition drain :: "string list \<Rightarrow> world \<Rightarrow> world" where
  "drain chunks w =
     snd (pk_spawn_emit_whole_lines
            (w\<lparr>stdout_buf := pk_spawn_read_fd_into_buffer chunks (stdout_buf w)\<rparr>))"

definition stop_poll :: "world \<Rightarrow> world" where
  "stop_poll w =
     (if poll_id w > 0 then (g_source_remove (poll_id w) w)\<lparr>poll_id := 0\<rparr> else w)"

definition close_resources :: "world \<Rightarrow> world" where
  "close_resources w =
     w\<lparr>trace := trace w @ [Sys_close (stdin_fd w), Sys_close (stdout_fd w)],
       stdin_fd := -1, stdout_fd := -1, child_pid := -1\<rparr>"

definition default_exit :: "32 word \<Rightarrow> world \<Rightarrow> world" where
  "default_exit status w =
     (if WEXITSTATUS status > 0
      then (if exit w = PK_SPAWN_EXIT_TYPE_UNKNOWN
            then w\<lparr>exit := PK_SPAWN_EXIT_TYPE_FAILED\<rparr> else w)
      else (if exit w = PK_SPAWN_EXIT_TYPE_UNKNOWN
            then w\<lparr>exit := PK_SPAWN_EXIT_TYPE_SUCCESS\<rparr> else w))"

definition cancel_sigkill :: "world \<Rightarrow> world" where
  "cancel_sigkill w =
     (if kill_id w \<noteq> 0 then (g_source_remove (kill_id w) w)\<lparr>kill_id := 0\<rparr> else w)"

definition quit_exit_loop :: "world \<Rightarrow> world" where
  "quit_exit_loop w =
     (if exit_loop w
      then let w' = w\<lparr>exit_loop := False\<rparr>
           in if is_changing_dispatcher w'
              then w'\<lparr>exit := PK_SPAWN_EXIT_TYPE_DISPATCHER_CHANGED\<rparr>
              else if is_sending_exit w'
              then w'\<lparr>exit := PK_SPAWN_EXIT_TYPE_DISPATCHER_EXIT\<rparr>
              else w'
      else w)"

definition emit_exit :: "world \<Rightarrow> world" where
  "emit_exit w = w\<lparr>trace := trace w @ [Emit_exit (exit w)]\<rparr>"

text \<open>
  The lines one tick emits, and the classification a reaping tick arrives at, as
  functions of the state the tick starts in.
\<close>

definition drained :: "string list \<Rightarrow> world \<Rightarrow> string list" where
  "drained chunks w =
     butlast (g_strsplit (c_str (pk_spawn_read_fd_into_buffer chunks (stdout_buf w))) LF)"

definition reap_exit :: "32 word \<Rightarrow> world \<Rightarrow> PkSpawnExitType" where
  "reap_exit status w =
     (if exit_loop w \<and> is_changing_dispatcher w then PK_SPAWN_EXIT_TYPE_DISPATCHER_CHANGED
      else if exit_loop w \<and> is_sending_exit w then PK_SPAWN_EXIT_TYPE_DISPATCHER_EXIT
      else if exit w \<noteq> PK_SPAWN_EXIT_TYPE_UNKNOWN then exit w
      else if WEXITSTATUS status > 0 then PK_SPAWN_EXIT_TYPE_FAILED
      else PK_SPAWN_EXIT_TYPE_SUCCESS)"

definition reaped :: "string list \<Rightarrow> 32 word \<Rightarrow> world \<Rightarrow> world" where
  "reaped chunks status w =
     w\<lparr>stdout_buf := drop (sum_list (map (\<lambda>l. length l + 1) (drained chunks w)))
                         (pk_spawn_read_fd_into_buffer chunks (stdout_buf w)),
       sources := filter (\<lambda>src. kill_id w = 0 \<or> fst src \<noteq> kill_id w)
                   (filter (\<lambda>src. poll_id w = 0 \<or> fst src \<noteq> poll_id w) (sources w)),
       poll_id := 0, kill_id := 0, stdin_fd := -1, stdout_fd := -1, child_pid := -1,
       finished := True, exit_loop := False,
       exit := reap_exit status w,
       trace := trace w @ map Emit_stdout (drained chunks w)
                @ [Sys_close (stdin_fd w), Sys_close (stdout_fd w),
                   Emit_exit (reap_exit status w)]\<rparr>"

subsection \<open>Where a call leaves the world\<close>

fun world_of :: "'a outcome \<Rightarrow> world" where
  "world_of (Returns r w) = w"
| "world_of (Blocks w) = w"
| "world_of (Aborts w) = w"

text \<open>
  A property of the world is preserved when each of the statements the public
  functions are made of keeps it: a dispatch, \<^verbatim>\<open>pk_spawn_kill\<close>, the write to stdin,
  the setting of the two flags, the start of the nested loop, and the creation of a
  new instance.
\<close>

definition preserved :: "(world \<Rightarrow> bool) \<Rightarrow> bool" where
  "preserved P \<longleftrightarrow>
     (\<forall>w. P w \<longrightarrow>
        (\<forall>e. P (dispatch e w))
      \<and> (\<forall>retval. P (snd (pk_spawn_kill retval w)))
      \<and> (\<forall>wrote command. P (snd (pk_spawn_send_stdin wrote command w)))
      \<and> (\<forall>b. P (w\<lparr>is_sending_exit := b\<rparr>))
      \<and> (\<forall>b. P (w\<lparr>is_changing_dispatcher := b\<rparr>))
      \<and> P (w\<lparr>exit_loop := True\<rparr>)
      \<and> (\<forall>sys argv0 args envp. P (world_of (spawn_instance sys argv0 args envp w))))"

subsection \<open>Concrete runs\<close>

text \<open>
  System answers used in the examples: a launch that succeeds with pid 4242 and the
  pipe ends 7 and 8 (and an exit line written in full when the dispatcher has to be
  changed), a tick at which \<^verbatim>\<open>waitpid\<close> reports that pid with a wait status, and a
  tick at which the child is still running.
\<close>

definition launch_ok :: launch_sys where
  "launch_ok = \<lparr>reuse_wrote = 0, exit_wrote = 5, exit_events = [], spawn_result = Some (4242, 7, 8)\<rparr>"

definition child_exited :: "32 word \<Rightarrow> syscalls" where
  "child_exited status =
     \<lparr>read_chunks = [], waitpid_ret = 4242, waitpid_status = status, kill_ret = 0\<rparr>"

definition child_running :: "string list \<Rightarrow> syscalls" where
  "child_running chunks =
     \<lparr>read_chunks = chunks, waitpid_ret = 0, waitpid_status = 0, kill_ret = 0\<rparr>"

text \<open>A spawner whose helper is running, and one relaunched after its first helper exited with status code 0.\<close>

definition running :: world where
  "running = exec [Call_argv launch_ok ''helper'' [''search-name''] None] (pk_spawn_init 0)"

definition relaunched :: world where
  "relaunched =
     exec [Call_argv launch_ok ''helper'' [''search-name''] None,
           Iterate (Dispatch 1 (child_exited 0)),
           Call_argv launch_ok ''helper'' [''search-name''] None] (pk_spawn_init 0)"

text \<open>A running helper on which \<^verbatim>\<open>pk_spawn_kill\<close> was called, \<^verbatim>\<open>kill\<close> returning 0.\<close>

definition killed :: world where
  "killed =
     exec [Call_argv launch_ok ''helper'' [''search-name''] None, Call_kill 0] (pk_spawn_init 0)"

text \<open>
  Answers to a launch on a running helper where the write of the command line fails,
  the exit line is written in full, the old helper is reaped at the first tick of the
  nested loop, and the new helper gets pid 4243 and the pipe ends 9 and 10.
\<close>

definition write_fails :: launch_sys where
  "write_fails =
     \<lparr>reuse_wrote = -1, exit_wrote = 5, exit_events = [Dispatch 1 (child_exited 0)],
      spawn_result = Some (4243, 9, 10)\<rparr>"

subsection \<open>Properties of traces and of the attached sources\<close>

text \<open>
  A trace is in escalation order when every SIGKILL in it has a SIGQUIT before it. A
  world respects the escalation when its trace is in that order and a SIGKILL timeout
  is attached only after a SIGQUIT has been sent.
\<close>

definition escalation_ordered :: "action list \<Rightarrow> bool" where
  "escalation_ordered tr \<longleftrightarrow>
     (\<forall>pre p post. tr = pre @ Sys_kill p SIGKILL # post \<longrightarrow> (\<exists>q. Sys_kill q SIGQUIT \<in> set pre))"

definition escalation_inv :: "world \<Rightarrow> bool" where
  "escalation_inv w \<longleftrightarrow>
     escalation_ordered (trace w)
     \<and> ((\<exists>tag iv. (tag, iv, PK_SPAWN_SIGKILL_CB) \<in> set (sources w))
          \<longrightarrow> (\<exists>q. Sys_kill q SIGQUIT \<in> set (trace w)))"

text \<open>
  Identifiers are handed out in increasing order: every attached source has an
  identifier below the next one, and every SIGKILL timeout has the interval of the
  escalation. An identifier is retired when it is below the next one and no longer
  attached.
\<close>

definition sources_inv :: "world \<Rightarrow> bool" where
  "sources_inv w \<longleftrightarrow>
     (\<forall>src \<in> set (sources w).
        fst src < next_source w
        \<and> (snd (snd src) = PK_SPAWN_SIGKILL_CB \<longrightarrow> fst (snd src) = PK_SPAWN_SIGKILL_DELAY))"

definition retired :: "nat \<Rightarrow> world \<Rightarrow> bool" where
  "retired tag w \<longleftrightarrow> tag \<notin> fst ` set (sources w) \<and> tag < next_source w"

text \<open>A child that is marked finished has had its pipes closed.\<close>

definition finished_closed :: "world \<Rightarrow> bool" where
  "finished_closed w \<longleftrightarrow> (finished w \<longrightarrow> stdin_fd w = -1)"

text \<open>The trace of a world continues a given trace.\<close>

definition continues :: "action list \<Rightarrow> world \<Rightarrow> bool" where
  "continues tr w \<longleftrightarrow> (\<exists>ext. trace w = tr @ ext)"

section \<open>Properties\<close>

subsection \<open>Splitting into lines\<close>

lemma split_on_not_Nil: "split_on d s \<noteq> []"
  by (induction s) (auto split: list.splits)

lemma split_on_rejoin:
  "concat (map (\<lambda>l. l @ [d]) (butlast (split_on d s))) @ last (split_on d s) = s"
  by (induction s) (auto simp: split_on_not_Nil split: list.splits)

lemma split_on_no_delimiter: "d \<notin> set (concat (split_on d s))"
  by (induction s) (auto split: list.splits)

lemma length_split_on: "length (split_on d s) = Suc (count_list s d)"
  by (induction s) (auto split: list.splits)

lemma emit_lines_eq:
  "emit_lines ls (w, n) =
     (w\<lparr>trace := trace w @ map Emit_stdout ls\<rparr>, n + sum_list (map (\<lambda>l. length l + 1) ls))"
  by (induction ls arbitrary: w n) (auto simp: emit_lines_def)

lemma takeWhile_drop:
  "n \<le> length (takeWhile P xs) \<Longrightarrow> takeWhile P (drop n xs) = drop n (takeWhile P xs)"
proof (induction xs arbitrary: n)
  case Nil
  then show ?case by simp
next
  case (Cons x xs)
  then show ?case by (cases n) (auto split: if_splits)
qed

lemma c_str_drop: "n \<le> length (c_str s) \<Longrightarrow> c_str (drop n s) = drop n (c_str s)"
  unfolding c_str_def by (rule takeWhile_drop)

lemma c_str_prefix: "take (length (c_str s)) s = c_str s"
  unfolding c_str_def by (induction s) auto

lemma sum_lengths:
  "sum_list (map (\<lambda>l. length l + 1) ls) = length (concat (map (\<lambda>l. l @ [d]) ls))"
  by (induction ls) auto

lemma emit_whole_lines_eq:
  "pk_spawn_emit_whole_lines w =
     (let lines = butlast (g_strsplit (c_str (stdout_buf w)) LF)
      in (c_str (stdout_buf w) \<noteq> [],
          w\<lparr>trace := trace w @ map Emit_stdout lines,
            stdout_buf := drop (sum_list (map (\<lambda>l. length l + 1) lines)) (stdout_buf w)\<rparr>))"
  by (simp add: pk_spawn_emit_whole_lines_def Let_def egg_strzero_def g_strsplit_def
      emit_lines_eq butlast_conv_take g_string_erase_def)

subsection \<open>The poll tick in closed form\<close>

lemma check_child_stages:
  "pk_spawn_check_child chunks wpid status w =
     (if finished w then (False, w)
      else if wpid \<noteq> child_pid (drain chunks w) then (True, drain chunks w)
      else (False, emit_exit (quit_exit_loop (cancel_sigkill
              ((default_exit status (close_resources (stop_poll (drain chunks w))))
                 \<lparr>finished := True\<rparr>)))))"
  unfolding pk_spawn_check_child_def drain_def stop_poll_def close_resources_def
    default_exit_def cancel_sigkill_def quit_exit_loop_def emit_exit_def Let_def
  by (rule refl)

lemma drain_eq:
  "drain chunks w =
     w\<lparr>stdout_buf := drop (sum_list (map (\<lambda>l. length l + 1) (drained chunks w)))
                         (pk_spawn_read_fd_into_buffer chunks (stdout_buf w)),
       trace := trace w @ map Emit_stdout (drained chunks w)\<rparr>"
  by (simp add: drain_def emit_whole_lines_eq Let_def drained_def)

lemma stop_poll_eq:
  "stop_poll w =
     w\<lparr>sources := filter (\<lambda>src. poll_id w = 0 \<or> fst src \<noteq> poll_id w) (sources w),
       poll_id := 0\<rparr>"
proof (cases "poll_id w = 0")
  case True
  have "w\<lparr>sources := sources w, poll_id := poll_id w\<rparr> = w" by simp
  with True show ?thesis by (simp add: stop_poll_def)
next
  case False
  then show ?thesis by (simp add: stop_poll_def g_source_remove_def)
qed

lemma cancel_sigkill_eq:
  "cancel_sigkill w =
     w\<lparr>sources := filter (\<lambda>src. kill_id w = 0 \<or> fst src \<noteq> kill_id w) (sources w),
       kill_id := 0\<rparr>"
proof (cases "kill_id w = 0")
  case True
  have "w\<lparr>sources := sources w, kill_id := kill_id w\<rparr> = w" by simp
  with True show ?thesis by (simp add: cancel_sigkill_def)
next
  case False
  then show ?thesis by (simp add: cancel_sigkill_def g_source_remove_def)
qed

lemma default_exit_eq:
  "default_exit status w =
     w\<lparr>exit := (if exit w \<noteq> PK_SPAWN_EXIT_TYPE_UNKNOWN then exit w
                 else if WEXITSTATUS status > 0 then PK_SPAWN_EXIT_TYPE_FAILED
                 else PK_SPAWN_EXIT_TYPE_SUCCESS)\<rparr>"
proof -
  have "w\<lparr>exit := exit w\<rparr> = w" by simp
  then show ?thesis by (simp add: default_exit_def)
qed

lemma quit_exit_loop_eq:
  "quit_exit_loop w =
     w\<lparr>exit_loop := False,
       exit := (if exit_loop w \<and> is_changing_dispatcher w
                then PK_SPAWN_EXIT_TYPE_DISPATCHER_CHANGED
                else if exit_loop w \<and> is_sending_exit w
                then PK_SPAWN_EXIT_TYPE_DISPATCHER_EXIT
                else exit w)\<rparr>"
proof (cases "exit_loop w")
  case True
  have "w\<lparr>exit_loop := False, exit := exit w\<rparr> = w\<lparr>exit_loop := False\<rparr>" by simp
  with True show ?thesis by (simp add: quit_exit_loop_def Let_def)
next
  case False
  have "w\<lparr>exit_loop := exit_loop w, exit := exit w\<rparr> = w" by simp
  with False show ?thesis by (simp add: quit_exit_loop_def)
qed

lemma check_child_finished:
  "finished w \<Longrightarrow> pk_spawn_check_child chunks wpid status w = (False, w)"
  by (simp add: pk_spawn_check_child_def)

lemma check_child_running:
  "\<not> finished w \<Longrightarrow> wpid \<noteq> child_pid w \<Longrightarrow>
   pk_spawn_check_child chunks wpid status w = (True, drain chunks w)"
  by (simp add: check_child_stages drain_eq)

lemma check_child_reap:
  "\<not> finished w \<Longrightarrow>
   pk_spawn_check_child chunks (child_pid w) status w = (False, reaped chunks status w)"
  by (simp add: check_child_stages drain_eq stop_poll_eq close_resources_def default_exit_eq
      cancel_sigkill_eq quit_exit_loop_eq emit_exit_def reap_exit_def reaped_def)

lemma WEXITSTATUS_pos: "(WEXITSTATUS status > 0) = (WEXITSTATUS status \<noteq> 0)"
proof -
  have "0 \<le> WEXITSTATUS status"
    unfolding WEXITSTATUS_def by (rule uint_ge_0)
  then show ?thesis by linarith
qed

subsection \<open>The two callbacks and the write\<close>

lemma sigkill_cb_eq:
  "pk_spawn_sigkill_cb retval w =
     (False, if finished w then w
             else w\<lparr>exit := PK_SPAWN_EXIT_TYPE_SIGKILL,
                    trace := trace w @ [Sys_kill (child_pid w) SIGKILL]\<rparr>)"
  by (simp add: pk_spawn_sigkill_cb_def Let_def)

lemma kill_finished: "finished w \<Longrightarrow> pk_spawn_kill retval w = (False, w)"
  by (simp add: pk_spawn_kill_def)

lemma kill_refused:
  "\<not> finished w \<Longrightarrow> retval = EINVAL \<or> retval = EPERM \<Longrightarrow>
   pk_spawn_kill retval w =
     (False, w\<lparr>exit := PK_SPAWN_EXIT_TYPE_SIGQUIT,
               trace := trace w @ [Sys_kill (child_pid w) SIGQUIT]\<rparr>)"
  by (auto simp: pk_spawn_kill_def Let_def)

lemma kill_armed:
  "\<not> finished w \<Longrightarrow> retval \<noteq> EINVAL \<Longrightarrow> retval \<noteq> EPERM \<Longrightarrow>
   pk_spawn_kill retval w =
     (True, w\<lparr>exit := PK_SPAWN_EXIT_TYPE_SIGQUIT,
              trace := trace w @ [Sys_kill (child_pid w) SIGQUIT],
              sources := sources w @ [(next_source w, PK_SPAWN_SIGKILL_DELAY, PK_SPAWN_SIGKILL_CB)],
              next_source := Suc (next_source w),
              kill_id := next_source w\<rparr>)"
  by (simp add: pk_spawn_kill_def Let_def g_timeout_add_def)

lemma send_stdin_eq:
  "pk_spawn_send_stdin wrote command w =
     (if finished w then (False, w)
      else (wrote = int (length command) + 1,
            w\<lparr>trace := trace w @ [Sys_write (stdin_fd w) (command @ [LF])]\<rparr>))"
  by (simp add: pk_spawn_send_stdin_def Let_def)

subsection \<open>The concrete runs, evaluated\<close>

lemma running_eq:
  "running =
     \<lparr>child_pid = 4242, stdin_fd = 7, stdout_fd = 8, poll_id = 1, kill_id = 0,
      finished = False, is_sending_exit = False, is_changing_dispatcher = False,
      exit = PK_SPAWN_EXIT_TYPE_UNKNOWN, exit_loop = False, stdout_buf = [],
      last_argv0 = Some ''helper'', last_envp = None, conf = 0,
      sources = [(1, 50, PK_SPAWN_CHECK_CHILD)], next_source = 2,
      trace = [Sys_spawn [''helper'', ''search-name''] None]\<rparr>"
  by code_simp

lemma relaunched_eq:
  "relaunched =
     \<lparr>child_pid = 4242, stdin_fd = 7, stdout_fd = 8, poll_id = 2, kill_id = 0,
      finished = False, is_sending_exit = False, is_changing_dispatcher = False,
      exit = PK_SPAWN_EXIT_TYPE_SUCCESS, exit_loop = False, stdout_buf = [],
      last_argv0 = Some ''helper'', last_envp = None, conf = 0,
      sources = [(2, 50, PK_SPAWN_CHECK_CHILD)], next_source = 3,
      trace = [Sys_spawn [''helper'', ''search-name''] None, Sys_close 7, Sys_close 8,
               Emit_exit PK_SPAWN_EXIT_TYPE_SUCCESS,
               Sys_spawn [''helper'', ''search-name''] None]\<rparr>"
  by code_simp

lemma drained_Nil: "stdout_buf w = [] \<Longrightarrow> drained [] w = []"
  by (simp add: drained_def pk_spawn_read_fd_into_buffer_def c_str_def g_strsplit_def)

lemma killed_eq:
  "killed =
     \<lparr>child_pid = 4242, stdin_fd = 7, stdout_fd = 8, poll_id = 1, kill_id = 2,
      finished = False, is_sending_exit = False, is_changing_dispatcher = False,
      exit = PK_SPAWN_EXIT_TYPE_SIGQUIT, exit_loop = False, stdout_buf = [],
      last_argv0 = Some ''helper'', last_envp = None, conf = 0,
      sources = [(1, 50, PK_SPAWN_CHECK_CHILD), (2, 500, PK_SPAWN_SIGKILL_CB)],
      next_source = 3,
      trace = [Sys_spawn [''helper'', ''search-name''] None, Sys_kill 4242 SIGQUIT]\<rparr>"
  by code_simp

subsection \<open>Dispatching, and properties every call preserves\<close>

lemma dispatch_cases [case_names none stale tick reap timer invoked]:
  obtains
    (none) "dispatch e w = w"
  | (stale) tag sys where "e = Dispatch tag sys" "finished w" "dispatch e w = g_source_remove tag w"
  | (tick) tag sys iv where "e = Dispatch tag sys"
      "map_of (sources w) tag = Some (iv, PK_SPAWN_CHECK_CHILD)" "\<not> finished w"
      "waitpid_ret sys \<noteq> child_pid w" "dispatch e w = drain (read_chunks sys) w"
  | (reap) tag sys iv where "e = Dispatch tag sys"
      "map_of (sources w) tag = Some (iv, PK_SPAWN_CHECK_CHILD)" "\<not> finished w"
      "waitpid_ret sys = child_pid w"
      "dispatch e w = g_source_remove tag (reaped (read_chunks sys) (waitpid_status sys) w)"
  | (timer) tag sys iv where "e = Dispatch tag sys"
      "map_of (sources w) tag = Some (iv, PK_SPAWN_SIGKILL_CB)" "\<not> finished w"
      "dispatch e w = g_source_remove tag
          (w\<lparr>exit := PK_SPAWN_EXIT_TYPE_SIGKILL, trace := trace w @ [Sys_kill (child_pid w) SIGKILL]\<rparr>)"
  | (invoked) retval where "e = Invoke_kill retval"
      "dispatch e w = snd (pk_spawn_kill retval w)"
proof (cases e)
  case (Dispatch tag sys)
  show ?thesis
  proof (cases "map_of (sources w) tag")
    case None
    with Dispatch have "dispatch e w = w" by simp
    then show ?thesis by (rule none)
  next
    case (Some p)
    obtain iv f where p: "p = (iv, f)" by (cases p)
    show ?thesis
    proof (cases "finished w")
      case True
      have "dispatch e w = g_source_remove tag w"
        using Dispatch Some p True
        by (cases f) (simp_all add: run_callback_def check_child_finished sigkill_cb_eq)
      with Dispatch True show ?thesis by (rule stale)
    next
      case False
      show ?thesis
      proof (cases f)
        case PK_SPAWN_CHECK_CHILD
        show ?thesis
        proof (cases "waitpid_ret sys = child_pid w")
          case True
          have "dispatch e w = g_source_remove tag (reaped (read_chunks sys) (waitpid_status sys) w)"
            using Dispatch Some p False PK_SPAWN_CHECK_CHILD True
            by (simp add: run_callback_def check_child_reap)
          with Dispatch Some p PK_SPAWN_CHECK_CHILD False True show ?thesis
            by (intro reap) auto
        next
          case ne: False
          have "dispatch e w = drain (read_chunks sys) w"
            using Dispatch Some p False PK_SPAWN_CHECK_CHILD ne
            by (simp add: run_callback_def check_child_running)
          with Dispatch Some p PK_SPAWN_CHECK_CHILD False ne show ?thesis
            by (intro tick) auto
        qed
      next
        case PK_SPAWN_SIGKILL_CB
        have "dispatch e w = g_source_remove tag
          (w\<lparr>exit := PK_SPAWN_EXIT_TYPE_SIGKILL, trace := trace w @ [Sys_kill (child_pid w) SIGKILL]\<rparr>)"
          using Dispatch Some p False PK_SPAWN_SIGKILL_CB
          by (simp add: run_callback_def sigkill_cb_eq)
        with Dispatch Some p PK_SPAWN_SIGKILL_CB False show ?thesis
          by (intro timer) auto
      qed
    qed
  qed
next
  case (Invoke_kill retval)
  then show ?thesis by (intro invoked) simp_all
qed

lemma preserved_iterate:
  assumes "preserved P" and "P w"
  shows "P (world_of (main_loop_iterate evs w))"
  using assms(2)
proof (induction evs arbitrary: w)
  case Nil
  then show ?case by simp
next
  case (Cons e evs)
  from assms(1) Cons.prems have "P (dispatch e w)" by (simp add: preserved_def)
  with Cons.IH show ?case by (simp add: Let_def)
qed

lemma preserved_exit:
  assumes "preserved P" and "P w"
  shows "P (world_of (pk_spawn_exit wrote evs w))"
proof -
  let ?w1 = "w\<lparr>is_sending_exit := True\<rparr>"
  let ?w2 = "snd (pk_spawn_send_stdin wrote ''exit'' ?w1)"
  let ?w3 = "?w2\<lparr>exit_loop := True\<rparr>"
  from assms have "P ?w1" by (simp add: preserved_def)
  with assms(1) have w2: "P ?w2" by (simp add: preserved_def)
  with assms(1) have w3: "P ?w3" by (simp add: preserved_def)
  from assms(1) w2 have failed: "P (?w2\<lparr>is_sending_exit := False\<rparr>)"
    by (simp add: preserved_def)
  have looped: "P (world_of (main_loop_iterate evs ?w3))"
    using assms(1) w3 by (rule preserved_iterate)
  then have "P ((world_of (main_loop_iterate evs ?w3))\<lparr>is_sending_exit := False\<rparr>)"
    using assms(1) by (simp add: preserved_def)
  with assms(2) failed looped show ?thesis
    by (auto simp: pk_spawn_exit_def Let_def g_main_loop_run_def split: prod.splits outcome.splits)
qed

lemma preserved_change_dispatcher:
  assumes "preserved P" and "P w"
  shows "P (world_of (change_dispatcher sys w))"
proof -
  let ?w1 = "w\<lparr>is_changing_dispatcher := True\<rparr>"
  from assms have "P ?w1" by (simp add: preserved_def)
  with assms(1) have 1: "P (world_of (pk_spawn_exit (exit_wrote sys) (exit_events sys) ?w1))"
    by (rule preserved_exit)
  then have "P ((world_of (pk_spawn_exit (exit_wrote sys) (exit_events sys) ?w1))\<lparr>is_changing_dispatcher := False\<rparr>)"
    using assms(1) by (simp add: preserved_def)
  with 1 show ?thesis
    by (auto simp: change_dispatcher_def Let_def split: outcome.splits)
qed

lemma preserved_argv:
  assumes "preserved P" and "P w"
  shows "P (world_of (pk_spawn_argv sys argv0 args envp w))"
proof -
  have sp: "P (world_of (spawn_instance sys argv0 args envp w'))" if "P w'" for w'
    using assms(1) that by (simp add: preserved_def)
  have re: "P (world_of (case change_dispatcher sys w' of
                           Returns u w'' \<Rightarrow> spawn_instance sys argv0 args envp w''
                         | Blocks w'' \<Rightarrow> Blocks w''
                         | Aborts w'' \<Rightarrow> Aborts w''))" if "P w'" for w'
    using preserved_change_dispatcher [OF assms(1) that, of sys] sp
    by (auto split: outcome.splits)
  have wr: "P (snd (pk_spawn_send_stdin (reuse_wrote sys) (g_strjoinv TAB args) w))"
    using assms by (simp add: preserved_def)
  show ?thesis
    using assms(2) sp re wr
    by (auto simp: pk_spawn_argv_def Let_def split: prod.splits)
qed

lemma preserved_step:
  assumes "preserved P" and "P w"
  shows "P (world_of (run_step s w))"
proof (cases s)
  case (Call_argv sys argv0 args envp)
  with preserved_argv [OF assms, of sys argv0 args envp] show ?thesis
    by (auto split: outcome.splits)
next
  case (Call_kill retval)
  with assms show ?thesis by (simp add: preserved_def)
next
  case (Call_exit wrote evs)
  with preserved_exit [OF assms, of wrote evs] show ?thesis
    by (auto split: outcome.splits)
next
  case (Iterate e)
  with assms show ?thesis by (simp add: preserved_def)
qed

lemma preserved_exec:
  assumes "preserved P" and "P w"
  shows "P (exec steps w)"
  using assms(2)
proof (induction steps arbitrary: w)
  case Nil
  then show ?case by simp
next
  case (Cons s steps)
  from preserved_step [OF assms(1) Cons.prems, of s] Cons.IH show ?case
    by (auto split: outcome.splits)
qed

lemma kill_cases [case_names finished refused armed]:
  obtains
    (finished) "finished w" "pk_spawn_kill retval w = (False, w)"
  | (refused) "\<not> finished w"
      "pk_spawn_kill retval w =
         (False, w\<lparr>exit := PK_SPAWN_EXIT_TYPE_SIGQUIT,
                   trace := trace w @ [Sys_kill (child_pid w) SIGQUIT]\<rparr>)"
  | (armed) "\<not> finished w"
      "pk_spawn_kill retval w =
         (True, w\<lparr>exit := PK_SPAWN_EXIT_TYPE_SIGQUIT,
                  trace := trace w @ [Sys_kill (child_pid w) SIGQUIT],
                  sources := sources w @ [(next_source w, PK_SPAWN_SIGKILL_DELAY, PK_SPAWN_SIGKILL_CB)],
                  next_source := Suc (next_source w),
                  kill_id := next_source w\<rparr>)"
proof (cases "finished w")
  case True
  then show ?thesis by (intro finished) (simp_all add: kill_finished)
next
  case False
  show ?thesis
  proof (cases "retval = EINVAL \<or> retval = EPERM")
    case True
    with False show ?thesis by (intro refused) (simp_all add: kill_refused)
  next
    case ne: False
    with False show ?thesis by (intro armed) (simp_all add: kill_armed)
  qed
qed

lemma spawn_instance_cases [case_names failed aborted started]:
  obtains
    (failed) prio where "set prio \<subseteq> {Sys_setpriority (child_pid w) (CLAMP (conf w) (-20) 19)}"
      "spawn_instance sys exe args envp w =
         Returns False (w\<lparr>finished := False, trace := trace w @ Sys_spawn (exe # args) envp # prio\<rparr>)"
  | (aborted) pid fd_in fd_out prio where "set prio \<subseteq> {Sys_setpriority pid (CLAMP (conf w) (-20) 19)}"
      "poll_id w \<noteq> 0"
      "spawn_instance sys exe args envp w =
         Aborts (w\<lparr>finished := False, trace := trace w @ Sys_spawn (exe # args) envp # prio,
                   child_pid := pid, stdin_fd := fd_in, stdout_fd := fd_out,
                   last_argv0 := Some exe, last_envp := envp\<rparr>)"
  | (started) pid fd_in fd_out prio where "set prio \<subseteq> {Sys_setpriority pid (CLAMP (conf w) (-20) 19)}"
      "poll_id w = 0"
      "spawn_instance sys exe args envp w =
         Returns True (w\<lparr>finished := False, trace := trace w @ Sys_spawn (exe # args) envp # prio,
                   child_pid := pid, stdin_fd := fd_in, stdout_fd := fd_out,
                   last_argv0 := Some exe, last_envp := envp,
                   sources := sources w @ [(next_source w, PK_SPAWN_POLL_DELAY, PK_SPAWN_CHECK_CHILD)],
                   next_source := Suc (next_source w),
                   poll_id := next_source w\<rparr>)"
proof (cases "spawn_result sys")
  case None
  show ?thesis
  proof (cases "CLAMP (conf w) (-20) 19 = 0")
    case True
    with None show ?thesis
      by (intro failed [of "[]"]) (simp_all add: spawn_instance_def Let_def)
  next
    case False
    with None show ?thesis
      by (intro failed [of "[Sys_setpriority (child_pid w) (CLAMP (conf w) (-20) 19)]"])
        (simp_all add: spawn_instance_def Let_def)
  qed
next
  case (Some r)
  obtain pid fd_in fd_out where r: "r = (pid, fd_in, fd_out)" by (cases r)
  define prio where "prio = (if CLAMP (conf w) (-20) 19 = 0 then []
     else [Sys_setpriority pid (CLAMP (conf w) (-20) 19)])"
  have prio: "set prio \<subseteq> {Sys_setpriority pid (CLAMP (conf w) (-20) 19)}"
    by (simp add: prio_def)
  show ?thesis
  proof (cases "poll_id w = 0")
    case True
    with Some r have "spawn_instance sys exe args envp w =
         Returns True (w\<lparr>finished := False, trace := trace w @ Sys_spawn (exe # args) envp # prio,
                   child_pid := pid, stdin_fd := fd_in, stdout_fd := fd_out,
                   last_argv0 := Some exe, last_envp := envp,
                   sources := sources w @ [(next_source w, PK_SPAWN_POLL_DELAY, PK_SPAWN_CHECK_CHILD)],
                   next_source := Suc (next_source w),
                   poll_id := next_source w\<rparr>)"
      by (simp add: spawn_instance_def Let_def prio_def g_timeout_add_def)
    with prio True show ?thesis by (rule started)
  next
    case False
    with Some r have "spawn_instance sys exe args envp w =
         Aborts (w\<lparr>finished := False, trace := trace w @ Sys_spawn (exe # args) envp # prio,
                   child_pid := pid, stdin_fd := fd_in, stdout_fd := fd_out,
                   last_argv0 := Some exe, last_envp := envp\<rparr>)"
      by (simp add: spawn_instance_def Let_def prio_def)
    with prio False show ?thesis by (rule aborted)
  qed
qed

subsection \<open>The escalation order is kept\<close>

lemma escalation_ordered_Nil: "escalation_ordered []"
  by (simp add: escalation_ordered_def)

lemma escalation_ordered_append:
  assumes "escalation_ordered tr"
    and "(\<exists>p. Sys_kill p SIGKILL \<in> set ext) \<Longrightarrow> (\<exists>q. Sys_kill q SIGQUIT \<in> set tr)"
  shows "escalation_ordered (tr @ ext)"
  unfolding escalation_ordered_def
proof (intro allI impI)
  fix pre p post
  assume eq: "tr @ ext = pre @ Sys_kill p SIGKILL # post"
  then consider us where "tr = pre @ us" "us @ ext = Sys_kill p SIGKILL # post"
    | us where "tr @ us = pre" "ext = us @ Sys_kill p SIGKILL # post"
    by (auto simp: append_eq_append_conv2)
  then show "\<exists>q. Sys_kill q SIGQUIT \<in> set pre"
  proof cases
    case 1
    show ?thesis
    proof (cases us)
      case Nil
      with 1 have "Sys_kill p SIGKILL \<in> set ext" by simp
      with assms(2) obtain q where "Sys_kill q SIGQUIT \<in> set tr" by blast
      with 1 Nil show ?thesis by auto
    next
      case (Cons u us')
      with 1 have "tr = pre @ Sys_kill p SIGKILL # us'" by simp
      with assms(1) show ?thesis unfolding escalation_ordered_def by blast
    qed
  next
    case 2
    then have "Sys_kill p SIGKILL \<in> set ext" by simp
    with assms(2) obtain q where "Sys_kill q SIGQUIT \<in> set tr" by blast
    with 2 show ?thesis by auto
  qed
qed

lemma escalation_inv_extend:
  assumes "escalation_inv w"
    and "trace w' = trace w @ ext"
    and "(\<exists>p. Sys_kill p SIGKILL \<in> set ext) \<Longrightarrow> (\<exists>q. Sys_kill q SIGQUIT \<in> set (trace w))"
    and "\<And>tag iv. (tag, iv, PK_SPAWN_SIGKILL_CB) \<in> set (sources w') \<Longrightarrow>
           (tag, iv, PK_SPAWN_SIGKILL_CB) \<in> set (sources w) \<or> (\<exists>q. Sys_kill q SIGQUIT \<in> set ext)"
  shows "escalation_inv w'"
proof -
  have "escalation_ordered (trace w')"
    using assms(1,3) unfolding assms(2) escalation_inv_def
    by (intro escalation_ordered_append) auto
  moreover have "\<exists>q. Sys_kill q SIGQUIT \<in> set (trace w')"
    if "(tag, iv, PK_SPAWN_SIGKILL_CB) \<in> set (sources w')" for tag iv
    using assms(4) [OF that] assms(1) unfolding assms(2) escalation_inv_def by auto
  ultimately show ?thesis unfolding escalation_inv_def by blast
qed

lemma escalation_inv_quiet:
  assumes "escalation_inv w"
    and "trace w' = trace w @ ext"
    and "\<And>p s. Sys_kill p s \<notin> set ext"
    and "\<And>tag iv. (tag, iv, PK_SPAWN_SIGKILL_CB) \<in> set (sources w') \<Longrightarrow>
           (tag, iv, PK_SPAWN_SIGKILL_CB) \<in> set (sources w)"
  shows "escalation_inv w'"
  using assms(1,2)
proof (rule escalation_inv_extend)
  show "\<exists>q. Sys_kill q SIGQUIT \<in> set (trace w)" if "\<exists>p. Sys_kill p SIGKILL \<in> set ext"
    using that assms(3) by blast
  show "(tag, iv, PK_SPAWN_SIGKILL_CB) \<in> set (sources w) \<or> (\<exists>q. Sys_kill q SIGQUIT \<in> set ext)"
    if "(tag, iv, PK_SPAWN_SIGKILL_CB) \<in> set (sources w')" for tag iv
    using assms(4) [OF that] by simp
qed

lemma escalation_inv_sigquit:
  assumes "escalation_inv w" and "trace w' = trace w @ [Sys_kill p SIGQUIT]"
  shows "escalation_inv w'"
  using assms by (rule escalation_inv_extend) simp_all

lemma escalation_inv_sigkill:
  assumes "escalation_inv w" and "trace w' = trace w @ [Sys_kill p SIGKILL]"
    and "(tag, iv, PK_SPAWN_SIGKILL_CB) \<in> set (sources w)"
    and "set (sources w') \<subseteq> set (sources w)"
  shows "escalation_inv w'"
  using assms(1,2)
proof (rule escalation_inv_extend)
  from assms(1,3) show "\<exists>q. Sys_kill q SIGQUIT \<in> set (trace w)"
    unfolding escalation_inv_def by blast
  show "(tag', iv', PK_SPAWN_SIGKILL_CB) \<in> set (sources w) \<or> (\<exists>q. Sys_kill q SIGQUIT \<in> set [Sys_kill p SIGKILL])"
    if "(tag', iv', PK_SPAWN_SIGKILL_CB) \<in> set (sources w')" for tag' iv'
    using that assms(4) by blast
qed

lemma escalation_inv_kill:
  assumes "escalation_inv w"
  shows "escalation_inv (snd (pk_spawn_kill retval w))"
proof (cases rule: kill_cases [where w = w and retval = retval])
  case finished
  with assms show ?thesis by simp
next
  case refused
  from assms show ?thesis
    by (rule escalation_inv_sigquit [where p = "child_pid w"]) (simp add: refused)
next
  case armed
  from assms show ?thesis
    by (rule escalation_inv_sigquit [where p = "child_pid w"]) (simp add: armed)
qed

lemma escalation_inv_dispatch:
  assumes "escalation_inv w"
  shows "escalation_inv (dispatch e w)"
proof (cases rule: dispatch_cases [where e = e and w = w])
  case none
  with assms show ?thesis by simp
next
  case (stale tag sys)
  from assms show ?thesis
    by (rule escalation_inv_quiet [where ext = "[]"]) (simp_all add: stale(3) g_source_remove_def)
next
  case (tick tag sys iv)
  from assms show ?thesis
  proof (rule escalation_inv_quiet)
    show "trace (dispatch e w) = trace w @ map Emit_stdout (drained (read_chunks sys) w)"
      by (simp add: tick(5) drain_eq)
    show "Sys_kill p s \<notin> set (map Emit_stdout (drained (read_chunks sys) w))" for p s
      by (simp add: image_iff)
    show "(tag', iv', PK_SPAWN_SIGKILL_CB) \<in> set (sources w)"
      if "(tag', iv', PK_SPAWN_SIGKILL_CB) \<in> set (sources (dispatch e w))" for tag' iv'
      using that by (simp add: tick(5) drain_eq)
  qed
next
  case (reap tag sys iv)
  from assms show ?thesis
  proof (rule escalation_inv_quiet)
    show "trace (dispatch e w) = trace w @ (map Emit_stdout (drained (read_chunks sys) w)
          @ [Sys_close (stdin_fd w), Sys_close (stdout_fd w),
             Emit_exit (reap_exit (waitpid_status sys) w)])"
      by (simp add: reap(5) reaped_def g_source_remove_def)
    show "Sys_kill p s \<notin> set (map Emit_stdout (drained (read_chunks sys) w)
          @ [Sys_close (stdin_fd w), Sys_close (stdout_fd w),
             Emit_exit (reap_exit (waitpid_status sys) w)])" for p s
      by (simp add: image_iff)
    show "(tag', iv', PK_SPAWN_SIGKILL_CB) \<in> set (sources w)"
      if "(tag', iv', PK_SPAWN_SIGKILL_CB) \<in> set (sources (dispatch e w))" for tag' iv'
      using that by (simp add: reap(5) reaped_def g_source_remove_def)
  qed
next
  case (timer tag sys iv)
  from timer(2) have armed: "(tag, iv, PK_SPAWN_SIGKILL_CB) \<in> set (sources w)"
    by (rule map_of_SomeD)
  show ?thesis
    by (rule escalation_inv_sigkill [OF assms _ armed, where p = "child_pid w"])
      (simp_all add: timer(4) g_source_remove_def)
next
  case (invoked retval)
  from assms show ?thesis by (simp add: invoked(2) escalation_inv_kill)
qed

lemma escalation_inv_spawn:
  assumes "escalation_inv w"
  shows "escalation_inv (world_of (spawn_instance sys argv0 args envp w))"
proof -
  have quiet: "escalation_inv w'"
    if "trace w' = trace w @ Sys_spawn (argv0 # args) envp # prio"
      and "set prio \<subseteq> {Sys_setpriority pid nice}"
      and "sources w' = sources w \<or> sources w' = sources w @ [(tag, iv, PK_SPAWN_CHECK_CHILD)]"
    for w' prio pid nice tag iv
    using assms that(1)
  proof (rule escalation_inv_quiet)
    show "Sys_kill p s \<notin> set (Sys_spawn (argv0 # args) envp # prio)" for p s
      using that(2) by auto
    show "(tag', iv', PK_SPAWN_SIGKILL_CB) \<in> set (sources w)"
      if "(tag', iv', PK_SPAWN_SIGKILL_CB) \<in> set (sources w')" for tag' iv'
      using that \<open>sources w' = sources w \<or> sources w' = sources w @ [(tag, iv, PK_SPAWN_CHECK_CHILD)]\<close>
      by auto
  qed
  show ?thesis
  proof (cases rule: spawn_instance_cases [where w = w and sys = sys and exe = argv0 and args = args and envp = envp])
    case (failed prio)
    show ?thesis
      by (rule quiet [OF _ failed(1)]) (simp_all add: failed(2))
  next
    case (aborted pid fd_in fd_out prio)
    show ?thesis
      by (rule quiet [OF _ aborted(1)]) (simp_all add: aborted(3))
  next
    case (started pid fd_in fd_out prio)
    show ?thesis
      by (rule quiet [OF _ started(1)]) (simp_all add: started(3))
  qed
qed

lemma escalation_inv_send_stdin:
  assumes "escalation_inv w"
  shows "escalation_inv (snd (pk_spawn_send_stdin wrote command w))"
proof (cases "finished w")
  case True
  with assms show ?thesis by (simp add: send_stdin_eq)
next
  case False
  from assms show ?thesis
    by (rule escalation_inv_extend [where ext = "[Sys_write (stdin_fd w) (command @ [LF])]"])
      (simp_all add: send_stdin_eq False)
qed

lemma escalation_inv_fields:
  "escalation_inv (w\<lparr>is_sending_exit := b\<rparr>) = escalation_inv w"
  "escalation_inv (w\<lparr>is_changing_dispatcher := b\<rparr>) = escalation_inv w"
  "escalation_inv (w\<lparr>exit_loop := b\<rparr>) = escalation_inv w"
  by (simp_all add: escalation_inv_def)

lemma preserved_escalation_inv: "preserved escalation_inv"
  unfolding preserved_def
  by (simp add: escalation_inv_dispatch escalation_inv_kill escalation_inv_spawn
      escalation_inv_send_stdin escalation_inv_fields)

subsection \<open>Source identifiers are never reused\<close>

lemma sources_inv_kill:
  assumes "sources_inv w"
  shows "sources_inv (snd (pk_spawn_kill retval w))"
proof (cases rule: kill_cases [where w = w and retval = retval])
  case finished
  with assms show ?thesis by simp
next
  case refused
  with assms show ?thesis by (simp add: sources_inv_def)
next
  case armed
  with assms show ?thesis by (auto simp: sources_inv_def less_Suc_eq)
qed

lemma sources_inv_dispatch:
  assumes "sources_inv w"
  shows "sources_inv (dispatch e w)"
proof (cases rule: dispatch_cases [where e = e and w = w])
  case none
  with assms show ?thesis by simp
next
  case (stale tag sys)
  with assms show ?thesis by (simp add: sources_inv_def g_source_remove_def)
next
  case (tick tag sys iv)
  with assms show ?thesis by (simp add: sources_inv_def drain_eq)
next
  case (reap tag sys iv)
  with assms show ?thesis by (simp add: sources_inv_def reaped_def g_source_remove_def)
next
  case (timer tag sys iv)
  with assms show ?thesis by (simp add: sources_inv_def g_source_remove_def)
next
  case (invoked retval)
  from assms show ?thesis by (simp add: invoked(2) sources_inv_kill)
qed

lemma sources_inv_spawn:
  assumes "sources_inv w"
  shows "sources_inv (world_of (spawn_instance sys argv0 args envp w))"
proof (cases rule: spawn_instance_cases [where w = w and sys = sys and exe = argv0 and args = args and envp = envp])
  case (failed prio)
  with assms show ?thesis by (simp add: sources_inv_def)
next
  case (aborted pid fd_in fd_out prio)
  with assms show ?thesis by (simp add: sources_inv_def)
next
  case (started pid fd_in fd_out prio)
  with assms show ?thesis by (auto simp: sources_inv_def less_Suc_eq)
qed

lemma preserved_sources_inv: "preserved sources_inv"
proof -
  have "sources_inv (snd (pk_spawn_send_stdin wrote command w))" if "sources_inv w"
    for w wrote command
    using that by (simp add: send_stdin_eq sources_inv_def)
  moreover have "sources_inv (w\<lparr>is_sending_exit := b\<rparr>) = sources_inv w"
    "sources_inv (w\<lparr>is_changing_dispatcher := b\<rparr>) = sources_inv w"
    "sources_inv (w\<lparr>exit_loop := b\<rparr>) = sources_inv w" for w b
    by (simp_all add: sources_inv_def)
  ultimately show ?thesis
    unfolding preserved_def
    by (simp add: sources_inv_dispatch sources_inv_kill sources_inv_spawn)
qed

lemma retired_kill:
  assumes "retired t w"
  shows "retired t (snd (pk_spawn_kill retval w))"
proof (cases rule: kill_cases [where w = w and retval = retval])
  case finished
  with assms show ?thesis by simp
next
  case refused
  with assms show ?thesis by (simp add: retired_def)
next
  case armed
  with assms show ?thesis by (auto simp: retired_def)
qed

lemma retired_dispatch:
  assumes "retired t w"
  shows "retired t (dispatch e w)"
proof (cases rule: dispatch_cases [where e = e and w = w])
  case none
  with assms show ?thesis by simp
next
  case (stale tag sys)
  with assms show ?thesis by (auto simp: retired_def g_source_remove_def)
next
  case (tick tag sys iv)
  with assms show ?thesis by (simp add: retired_def drain_eq)
next
  case (reap tag sys iv)
  with assms show ?thesis by (auto simp: retired_def reaped_def g_source_remove_def)
next
  case (timer tag sys iv)
  with assms show ?thesis by (auto simp: retired_def g_source_remove_def)
next
  case (invoked retval)
  from assms show ?thesis by (simp add: invoked(2) retired_kill)
qed

lemma retired_spawn:
  assumes "retired t w"
  shows "retired t (world_of (spawn_instance sys argv0 args envp w))"
proof (cases rule: spawn_instance_cases [where w = w and sys = sys and exe = argv0 and args = args and envp = envp])
  case (failed prio)
  with assms show ?thesis by (simp add: retired_def)
next
  case (aborted pid fd_in fd_out prio)
  with assms show ?thesis by (simp add: retired_def)
next
  case (started pid fd_in fd_out prio)
  with assms show ?thesis by (auto simp: retired_def)
qed

lemma preserved_retired: "preserved (retired t)"
proof -
  have "retired t (snd (pk_spawn_send_stdin wrote command w))" if "retired t w"
    for w wrote command
    using that by (simp add: send_stdin_eq retired_def)
  moreover have "retired t (w\<lparr>is_sending_exit := b\<rparr>) = retired t w"
    "retired t (w\<lparr>is_changing_dispatcher := b\<rparr>) = retired t w"
    "retired t (w\<lparr>exit_loop := b\<rparr>) = retired t w" for w b
    by (simp_all add: retired_def)
  ultimately show ?thesis
    unfolding preserved_def
    by (simp add: retired_dispatch retired_kill retired_spawn)
qed

lemma timer_fires_once:
  assumes "sources_inv w" and "map_of (sources w) tag = Some (iv, PK_SPAWN_SIGKILL_CB)"
  shows "iv = PK_SPAWN_SIGKILL_DELAY"
    and "trace (dispatch (Dispatch tag sys) w) =
           trace w @ (if finished w then [] else [Sys_kill (child_pid w) SIGKILL])"
    and "retired tag (dispatch (Dispatch tag sys) w)"
proof -
  from assms(2) have mem: "(tag, iv, PK_SPAWN_SIGKILL_CB) \<in> set (sources w)"
    by (rule map_of_SomeD)
  with assms(1) show "iv = PK_SPAWN_SIGKILL_DELAY"
    unfolding sources_inv_def by fastforce
  from mem assms(1) have lt: "tag < next_source w"
    unfolding sources_inv_def by fastforce
  have d: "dispatch (Dispatch tag sys) w =
      g_source_remove tag (snd (pk_spawn_sigkill_cb (kill_ret sys) w))"
    using assms(2) by (simp add: run_callback_def sigkill_cb_eq)
  show "trace (dispatch (Dispatch tag sys) w) =
           trace w @ (if finished w then [] else [Sys_kill (child_pid w) SIGKILL])"
    by (simp add: d sigkill_cb_eq g_source_remove_def del: dispatch.simps)
  show "retired tag (dispatch (Dispatch tag sys) w)"
    using lt by (auto simp: d sigkill_cb_eq g_source_remove_def retired_def simp del: dispatch.simps)
qed

lemma init_invs:
  "escalation_inv (pk_spawn_init nice)" "sources_inv (pk_spawn_init nice)"
  by (simp_all add: escalation_inv_def escalation_ordered_def sources_inv_def pk_spawn_init_def)

subsection \<open>The nested loop of the graceful exit\<close>

lemma map_of_filter_other:
  "t \<noteq> tag \<Longrightarrow> map_of (filter (\<lambda>src. fst src \<noteq> tag) xs) t = map_of xs t"
  by (induction xs) auto

lemma map_of_filter_same: "map_of (filter (\<lambda>src. fst src \<noteq> tag) xs) tag = None"
  by (induction xs) auto

lemma kill_keeps:
  "exit_loop (snd (pk_spawn_kill retval w)) = exit_loop w"
  "finished (snd (pk_spawn_kill retval w)) = finished w"
  "child_pid (snd (pk_spawn_kill retval w)) = child_pid w"
  "poll_id (snd (pk_spawn_kill retval w)) = poll_id w"
  "map_of (sources w) t = Some v \<Longrightarrow> map_of (sources (snd (pk_spawn_kill retval w))) t = Some v"
  by (cases rule: kill_cases [where w = w and retval = retval]; simp)+

lemma dispatch_quits:
  assumes "exit_loop w" and "\<not> exit_loop (dispatch e w)"
  shows "\<not> finished w \<and> finished (dispatch e w)
       \<and> child_pid (dispatch e w) = -1 \<and> stdin_fd (dispatch e w) = -1
       \<and> stdout_fd (dispatch e w) = -1
       \<and> (\<exists>tag sys iv. e = Dispatch tag sys
            \<and> map_of (sources w) tag = Some (iv, PK_SPAWN_CHECK_CHILD)
            \<and> waitpid_ret sys = child_pid w)"
proof (cases rule: dispatch_cases [where e = e and w = w])
  case none
  with assms show ?thesis by simp
next
  case (stale tag sys)
  from assms show ?thesis by (simp add: stale(3) g_source_remove_def)
next
  case (tick tag sys iv)
  from assms show ?thesis by (simp add: tick(5) drain_eq)
next
  case (reap tag sys iv)
  have "finished (dispatch e w)" "child_pid (dispatch e w) = -1" "stdin_fd (dispatch e w) = -1"
    "stdout_fd (dispatch e w) = -1"
    by (simp_all add: reap(5) reaped_def g_source_remove_def)
  with reap(1-4) show ?thesis by blast
next
  case (timer tag sys iv)
  from assms show ?thesis by (simp add: timer(4) g_source_remove_def)
next
  case (invoked retval)
  from assms show ?thesis by (simp add: invoked(2) kill_keeps)
qed

lemma dispatch_waits:
  assumes "exit_loop w" and "\<not> finished w" and "exit_loop (dispatch e w)"
  shows "\<not> finished (dispatch e w) \<and> child_pid (dispatch e w) = child_pid w
       \<and> poll_id (dispatch e w) = poll_id w
       \<and> (\<forall>t i. map_of (sources w) t = Some (i, PK_SPAWN_CHECK_CHILD) \<longrightarrow>
             map_of (sources (dispatch e w)) t = Some (i, PK_SPAWN_CHECK_CHILD))"
proof (cases rule: dispatch_cases [where e = e and w = w])
  case none
  with assms show ?thesis by simp
next
  case (stale tag sys)
  with assms show ?thesis by simp
next
  case (tick tag sys iv)
  from assms show ?thesis by (simp add: tick(5) drain_eq)
next
  case (reap tag sys iv)
  from assms(3) show ?thesis by (simp add: reap(5) reaped_def g_source_remove_def)
next
  case (timer tag sys iv)
  have "map_of (filter (\<lambda>src. fst src \<noteq> tag) (sources w)) t = Some (i, PK_SPAWN_CHECK_CHILD)"
    if "map_of (sources w) t = Some (i, PK_SPAWN_CHECK_CHILD)" for t i
  proof -
    from that timer(2) have "t \<noteq> tag" by auto
    with that show ?thesis by (simp add: map_of_filter_other)
  qed
  with assms(2) show ?thesis by (simp add: timer(4) g_source_remove_def)
next
  case (invoked retval)
  from assms show ?thesis by (simp add: invoked(2) kill_keeps)
qed

lemma main_loop_iterate_result:
  assumes "exit_loop w" and "\<not> finished w"
  shows "case main_loop_iterate evs w of
           Returns u w' \<Rightarrow> finished w' \<and> \<not> exit_loop w' \<and> child_pid w' = -1
                            \<and> stdin_fd w' = -1 \<and> stdout_fd w' = -1
         | Blocks w' \<Rightarrow> \<not> finished w' \<and> exit_loop w'
         | Aborts w' \<Rightarrow> False"
  using assms
proof (induction evs arbitrary: w)
  case Nil
  then show ?case by simp
next
  case (Cons e evs)
  show ?case
  proof (cases "exit_loop (dispatch e w)")
    case True
    with Cons.prems have "\<not> finished (dispatch e w)"
      using dispatch_waits [of w e] by blast
    with True Cons.IH [of "dispatch e w"] show ?thesis
      by (simp add: Let_def del: dispatch.simps)
  next
    case False
    with Cons.prems(1) have "finished (dispatch e w) \<and> child_pid (dispatch e w) = -1
        \<and> stdin_fd (dispatch e w) = -1 \<and> stdout_fd (dispatch e w) = -1"
      using dispatch_quits [of w e] by blast
    with False show ?thesis by (simp add: Let_def del: dispatch.simps)
  qed
qed

lemma main_loop_iterate_returns:
  assumes "exit_loop w" and "\<not> finished w"
    and "map_of (sources w) (poll_id w) = Some (iv, PK_SPAWN_CHECK_CHILD)"
    and "Dispatch (poll_id w) sys \<in> set evs" and "waitpid_ret sys = child_pid w"
  shows "\<exists>w'. main_loop_iterate evs w = Returns () w'"
  using assms
proof (induction evs arbitrary: w)
  case Nil
  then show ?case by simp
next
  case (Cons e evs)
  show ?case
  proof (cases "exit_loop (dispatch e w)")
    case False
    then show ?thesis by (simp add: Let_def del: dispatch.simps)
  next
    case True
    with Cons.prems(1,2) have keep: "\<not> finished (dispatch e w)"
      "child_pid (dispatch e w) = child_pid w" "poll_id (dispatch e w) = poll_id w"
      "map_of (sources (dispatch e w)) (poll_id w) = Some (iv, PK_SPAWN_CHECK_CHILD)"
      using dispatch_waits [of w e] Cons.prems(3) by blast+
    have "e \<noteq> Dispatch (poll_id w) sys"
    proof
      assume e: "e = Dispatch (poll_id w) sys"
      have "dispatch e w = g_source_remove (poll_id w)
              (reaped (read_chunks sys) (waitpid_status sys) w)"
        using Cons.prems(2,3,5) by (simp add: e run_callback_def check_child_reap)
      then have "\<not> exit_loop (dispatch e w)"
        by (simp add: reaped_def g_source_remove_def del: dispatch.simps)
      with True show False by simp
    qed
    with Cons.prems(4) have "Dispatch (poll_id w) sys \<in> set evs" by auto
    with Cons.IH [of "dispatch e w"] True keep Cons.prems(5)
    have "\<exists>w'. main_loop_iterate evs (dispatch e w) = Returns () w'"
      by (simp del: dispatch.simps)
    with True show ?thesis by (simp add: Let_def del: dispatch.simps)
  qed
qed

lemma exit_written:
  assumes "\<not> is_sending_exit w" and "\<not> finished w" and "wrote = 5"
  shows "pk_spawn_exit wrote evs w =
     (case main_loop_iterate evs
             (w\<lparr>is_sending_exit := True,
                trace := trace w @ [Sys_write (stdin_fd w) ''exit\<newline>''],
                exit_loop := True\<rparr>) of
        Returns u w3 \<Rightarrow> Returns True (w3\<lparr>is_sending_exit := False\<rparr>)
      | Blocks w3 \<Rightarrow> Blocks w3
      | Aborts w3 \<Rightarrow> Aborts w3)"
  using assms by (simp add: pk_spawn_exit_def send_stdin_eq g_main_loop_run_def)

lemma exit_after_finished:
  assumes "\<not> is_sending_exit w" and "finished w"
  shows "pk_spawn_exit wrote evs w = Returns False w"
proof -
  have "w\<lparr>is_sending_exit := is_sending_exit w\<rparr> = w" by simp
  with assms(1) have "w\<lparr>is_sending_exit := False\<rparr> = w" by simp
  with assms show ?thesis by (simp add: pk_spawn_exit_def send_stdin_eq)
qed

subsection \<open>A classification is never reset\<close>

lemma spawn_instance_fields:
  "exit (world_of (spawn_instance sys argv0 args envp w)) = exit w"
  "\<not> finished (world_of (spawn_instance sys argv0 args envp w))"
  by (cases rule: spawn_instance_cases [where w = w and sys = sys and exe = argv0 and args = args and envp = envp];
      simp)+

lemma classified_kill:
  assumes "exit w \<noteq> PK_SPAWN_EXIT_TYPE_UNKNOWN"
  shows "exit (snd (pk_spawn_kill retval w)) \<noteq> PK_SPAWN_EXIT_TYPE_UNKNOWN"
  using assms by (cases rule: kill_cases [where w = w and retval = retval]) simp_all

lemma classified_dispatch:
  assumes "exit w \<noteq> PK_SPAWN_EXIT_TYPE_UNKNOWN"
  shows "exit (dispatch e w) \<noteq> PK_SPAWN_EXIT_TYPE_UNKNOWN"
proof (cases rule: dispatch_cases [where e = e and w = w])
  case none
  with assms show ?thesis by simp
next
  case (stale tag sys)
  from assms show ?thesis by (simp add: stale(3) g_source_remove_def)
next
  case (tick tag sys iv)
  from assms show ?thesis by (simp add: tick(5) drain_eq)
next
  case (reap tag sys iv)
  from assms show ?thesis by (simp add: reap(5) reaped_def reap_exit_def g_source_remove_def)
next
  case (timer tag sys iv)
  show ?thesis by (simp add: timer(4) g_source_remove_def)
next
  case (invoked retval)
  from assms show ?thesis by (simp add: invoked(2) classified_kill)
qed

lemma preserved_classified: "preserved (\<lambda>w. exit w \<noteq> PK_SPAWN_EXIT_TYPE_UNKNOWN)"
  unfolding preserved_def
  by (simp add: classified_dispatch classified_kill send_stdin_eq spawn_instance_fields)

subsection \<open>Traces only grow, and a finished child has no pipes\<close>

lemma continues_kill:
  assumes "continues tr w"
  shows "continues tr (snd (pk_spawn_kill retval w))"
  using assms
  by (cases rule: kill_cases [where w = w and retval = retval]) (auto simp: continues_def)

lemma continues_dispatch:
  assumes "continues tr w"
  shows "continues tr (dispatch e w)"
proof (cases rule: dispatch_cases [where e = e and w = w])
  case none
  with assms show ?thesis by simp
next
  case (stale tag sys)
  from assms show ?thesis by (simp add: stale(3) g_source_remove_def continues_def)
next
  case (tick tag sys iv)
  from assms show ?thesis by (auto simp: tick(5) drain_eq continues_def)
next
  case (reap tag sys iv)
  from assms show ?thesis by (auto simp: reap(5) reaped_def g_source_remove_def continues_def)
next
  case (timer tag sys iv)
  from assms show ?thesis by (auto simp: timer(4) g_source_remove_def continues_def)
next
  case (invoked retval)
  from assms show ?thesis by (simp add: invoked(2) continues_kill)
qed

lemma continues_spawn:
  assumes "continues tr w"
  shows "continues tr (world_of (spawn_instance sys argv0 args envp w))"
  using assms
  by (cases rule: spawn_instance_cases [where w = w and sys = sys and exe = argv0 and args = args and envp = envp])
    (auto simp: continues_def)

lemma preserved_continues: "preserved (continues tr)"
proof -
  have "continues tr (snd (pk_spawn_send_stdin wrote command w))" if "continues tr w"
    for w wrote command
    using that by (auto simp: send_stdin_eq continues_def)
  moreover have "continues tr (w\<lparr>is_sending_exit := b\<rparr>) = continues tr w"
    "continues tr (w\<lparr>is_changing_dispatcher := b\<rparr>) = continues tr w"
    "continues tr (w\<lparr>exit_loop := b\<rparr>) = continues tr w" for w b
    by (simp_all add: continues_def)
  ultimately show ?thesis
    unfolding preserved_def
    by (simp add: continues_dispatch continues_kill continues_spawn)
qed

lemma finished_closed_kill:
  assumes "finished_closed w"
  shows "finished_closed (snd (pk_spawn_kill retval w))"
  using assms
  by (cases rule: kill_cases [where w = w and retval = retval]) (simp_all add: finished_closed_def)

lemma finished_closed_dispatch:
  assumes "finished_closed w"
  shows "finished_closed (dispatch e w)"
proof (cases rule: dispatch_cases [where e = e and w = w])
  case none
  with assms show ?thesis by simp
next
  case (stale tag sys)
  from assms show ?thesis by (simp add: stale(3) g_source_remove_def finished_closed_def)
next
  case (tick tag sys iv)
  from assms show ?thesis by (simp add: tick(5) drain_eq finished_closed_def)
next
  case (reap tag sys iv)
  show ?thesis by (simp add: reap(5) reaped_def g_source_remove_def finished_closed_def)
next
  case (timer tag sys iv)
  from assms show ?thesis by (simp add: timer(4) g_source_remove_def finished_closed_def)
next
  case (invoked retval)
  from assms show ?thesis by (simp add: invoked(2) finished_closed_kill)
qed

lemma preserved_finished_closed: "preserved finished_closed"
proof -
  have "finished_closed (world_of (spawn_instance sys argv0 args envp w))"
    for w sys argv0 args envp
    using spawn_instance_fields(2) [of sys argv0 args envp w] by (simp add: finished_closed_def)
  then show ?thesis
    unfolding preserved_def
    by (simp add: finished_closed_dispatch finished_closed_kill send_stdin_eq)
      (simp add: finished_closed_def)
qed

lemma spawn_instance_trace:
  assumes "spawn_instance sys argv0 args envp w = Returns r v"
  shows "\<exists>prio. trace v = trace w @ Sys_spawn (argv0 # args) envp # prio"
  using assms
  by (cases rule: spawn_instance_cases [where w = w and sys = sys and exe = argv0 and args = args and envp = envp])
    auto

lemma respawn_trace:
  assumes "(case change_dispatcher sys w of
              Returns u w' \<Rightarrow> spawn_instance sys argv0 args envp w'
            | Blocks w' \<Rightarrow> Blocks w'
            | Aborts w' \<Rightarrow> Aborts w') = Returns r v"
  shows "\<exists>ext prio. trace v = trace w @ ext @ Sys_spawn (argv0 # args) envp # prio"
proof (cases "change_dispatcher sys w")
  case (Returns u w')
  have "continues (trace w) (world_of (change_dispatcher sys w))"
    by (rule preserved_change_dispatcher [OF preserved_continues]) (simp add: continues_def)
  with Returns obtain ext where "trace w' = trace w @ ext"
    by (auto simp: continues_def)
  moreover from assms Returns obtain prio
    where "trace v = trace w' @ Sys_spawn (argv0 # args) envp # prio"
    using spawn_instance_trace [of sys argv0 args envp w' r v] by auto
  ultimately have "trace v = trace w @ ext @ Sys_spawn (argv0 # args) envp # prio" by simp
  then show ?thesis by blast
next
  case (Blocks w')
  with assms show ?thesis by simp
next
  case (Aborts w')
  with assms show ?thesis by simp
qed

lemma egg_strequal_iff: "egg_strequal id1 id2 \<longleftrightarrow> id1 = Some id2"
  by (simp add: egg_strequal_def split: option.splits)

lemma egg_strvequal_iff: "egg_strvequal id1 id2 \<longleftrightarrow> id1 = id2"
  by (auto simp: egg_strvequal_def list_all2_eq [symmetric] split: option.splits)

subsection \<open>What the escalation does keep\<close>

text \<open>
  In every execution of a freshly constructed spawner: a SIGKILL in the trace has some
  SIGQUIT before it, to whichever pid; a SIGKILL timeout that is attached has the
  interval of 500 ms, and when it fires it sends SIGKILL to the current \<open>child_pid\<close>
  if \<open>finished\<close> is false at that moment and sends nothing if it is true; once it has
  fired its identifier is never attached again, so it cannot fire a second time. The
  callback always returns \<^verbatim>\<open>FALSE\<close>.
\<close>

lemma escalation_facts:
  assumes "w = exec steps (pk_spawn_init nice)"
  shows "(trace w = pre @ Sys_kill p SIGKILL # post \<longrightarrow> (\<exists>q. Sys_kill q SIGQUIT \<in> set pre))
       \<and> (map_of (sources w) tag = Some (iv, PK_SPAWN_SIGKILL_CB) \<longrightarrow>
            iv = PK_SPAWN_SIGKILL_DELAY
          \<and> trace (dispatch (Dispatch tag sys) w) =
              trace w @ (if finished w then [] else [Sys_kill (child_pid w) SIGKILL])
          \<and> tag \<notin> fst ` set (sources (exec later (dispatch (Dispatch tag sys) w))))
       \<and> pk_spawn_sigkill_cb retval w =
            (False, if finished w then w
                    else w\<lparr>exit := PK_SPAWN_EXIT_TYPE_SIGKILL,
                           trace := trace w @ [Sys_kill (child_pid w) SIGKILL]\<rparr>)"
proof (intro conjI impI)
  have "escalation_inv w"
    unfolding assms by (rule preserved_exec [OF preserved_escalation_inv init_invs(1)])
  then have ordered: "escalation_ordered (trace w)"
    by (simp add: escalation_inv_def)
  assume "trace w = pre @ Sys_kill p SIGKILL # post"
  with ordered show "\<exists>q. Sys_kill q SIGQUIT \<in> set pre"
    unfolding escalation_ordered_def by blast
next
  have inv: "sources_inv w"
    unfolding assms by (rule preserved_exec [OF preserved_sources_inv init_invs(2)])
  assume armed: "map_of (sources w) tag = Some (iv, PK_SPAWN_SIGKILL_CB)"
  from inv armed show "iv = PK_SPAWN_SIGKILL_DELAY"
    by (rule timer_fires_once(1))
  from inv armed show "trace (dispatch (Dispatch tag sys) w) =
      trace w @ (if finished w then [] else [Sys_kill (child_pid w) SIGKILL])"
    by (rule timer_fires_once(2))
  from inv armed have "retired tag (dispatch (Dispatch tag sys) w)"
    by (rule timer_fires_once(3))
  with preserved_retired have "retired tag (exec later (dispatch (Dispatch tag sys) w))"
    by (rule preserved_exec)
  then show "tag \<notin> fst ` set (sources (exec later (dispatch (Dispatch tag sys) w)))"
    by (simp add: retired_def)
next
  show "pk_spawn_sigkill_cb retval w =
            (False, if finished w then w
                    else w\<lparr>exit := PK_SPAWN_EXIT_TYPE_SIGKILL,
                           trace := trace w @ [Sys_kill (child_pid w) SIGKILL]\<rparr>)"
    by (rule sigkill_cb_eq)
qed

lemma escalation_facts_example:
  "trace (exec [Iterate (Dispatch 2 (child_running []))] killed) =
     [Sys_spawn [''helper'', ''search-name''] None, Sys_kill 4242 SIGQUIT] @ Sys_kill 4242 SIGKILL # []
   \<and> (\<exists>q. Sys_kill q SIGQUIT \<in> set [Sys_spawn [''helper'', ''search-name''] None, Sys_kill 4242 SIGQUIT])
   \<and> map_of (sources killed) 2 = Some (500, PK_SPAWN_SIGKILL_CB)
   \<and> trace (dispatch (Dispatch 2 (child_running [])) killed) =
       [Sys_spawn [''helper'', ''search-name''] None, Sys_kill 4242 SIGQUIT, Sys_kill 4242 SIGKILL]
   \<and> 2 \<notin> fst ` set (sources (exec [Call_kill 0, Iterate (Dispatch 2 (child_running []))]
                               (dispatch (Dispatch 2 (child_running [])) killed)))"
proof -
  have k: "killed = exec [Call_argv launch_ok ''helper'' [''search-name''] None, Call_kill 0] (pk_spawn_init 0)"
    by (simp add: killed_def)
  have k3: "exec [Iterate (Dispatch 2 (child_running []))] killed =
    exec [Call_argv launch_ok ''helper'' [''search-name''] None, Call_kill 0,
          Iterate (Dispatch 2 (child_running []))] (pk_spawn_init 0)"
    by code_simp
  have t: "trace (exec [Iterate (Dispatch 2 (child_running []))] killed) =
     [Sys_spawn [''helper'', ''search-name''] None, Sys_kill 4242 SIGQUIT] @ Sys_kill 4242 SIGKILL # []"
    by code_simp
  have m: "map_of (sources killed) 2 = Some (500, PK_SPAWN_SIGKILL_CB)"
    by (simp add: killed_eq)
  have f: "\<not> finished killed" "child_pid killed = 4242"
    "trace killed = [Sys_spawn [''helper'', ''search-name''] None, Sys_kill 4242 SIGQUIT]"
    by (simp_all add: killed_eq)
  note a = escalation_facts [OF k3, of "[Sys_spawn [''helper'', ''search-name''] None, Sys_kill 4242 SIGQUIT]" 4242 "[]"]
  note b = escalation_facts [OF k, of _ _ _ 2 500 "child_running []"
      "[Call_kill 0, Iterate (Dispatch 2 (child_running []))]"]
  from a t have 1: "\<exists>q. Sys_kill q SIGQUIT \<in> set [Sys_spawn [''helper'', ''search-name''] None, Sys_kill 4242 SIGQUIT]"
    by blast
  from b m have 2: "trace (dispatch (Dispatch 2 (child_running [])) killed) =
              trace killed @ (if finished killed then [] else [Sys_kill (child_pid killed) SIGKILL])"
    and 3: "2 \<notin> fst ` set (sources (exec [Call_kill 0, Iterate (Dispatch 2 (child_running []))]
                               (dispatch (Dispatch 2 (child_running [])) killed)))"
    by blast+
  from 2 have 4: "trace (dispatch (Dispatch 2 (child_running [])) killed) =
       [Sys_spawn [''helper'', ''search-name''] None, Sys_kill 4242 SIGQUIT, Sys_kill 4242 SIGKILL]"
    by (simp add: f)
  from t 1 m 4 3 show ?thesis by blast
qed

section \<open>The claims\<close>

subsection \<open>Classification at the reap\<close>

text \<open>
  Claim C1. When the tick finds that the child has exited (\<^verbatim>\<open>waitpid\<close> returns its
  pid), it closes the pipes and then makes the default assignment of lines 186 to 193:
  a classification that is still unknown becomes success exactly when the exit status
  code \<^verbatim>\<open>WEXITSTATUS\<close> is 0 and failed for every other code, and a classification
  that was already set is kept. When no graceful exit is being waited for, this is the
  classification the tick ends with. Whether or not an exit is being waited for, a
  classification that was already set is never replaced by success or failed: it is
  kept or becomes one of the two dispatcher classifications.
\<close>

theorem check_child_exit_code_mapping:
  assumes "\<not> finished w" and "wpid = child_pid w"
  shows "snd (pk_spawn_check_child chunks wpid status w) =
           emit_exit (quit_exit_loop (cancel_sigkill
             ((default_exit status (close_resources (stop_poll (drain chunks w))))
                \<lparr>finished := True\<rparr>)))
       \<and> exit (default_exit status v) =
           (if exit v = PK_SPAWN_EXIT_TYPE_UNKNOWN
            then (if WEXITSTATUS status = 0 then PK_SPAWN_EXIT_TYPE_SUCCESS
                  else PK_SPAWN_EXIT_TYPE_FAILED)
            else exit v)
       \<and> (\<not> (exit_loop w \<and> (is_changing_dispatcher w \<or> is_sending_exit w)) \<longrightarrow>
            exit (snd (pk_spawn_check_child chunks wpid status w)) =
              (if exit w = PK_SPAWN_EXIT_TYPE_UNKNOWN
               then (if WEXITSTATUS status = 0 then PK_SPAWN_EXIT_TYPE_SUCCESS
                     else PK_SPAWN_EXIT_TYPE_FAILED)
               else exit w))
       \<and> (exit w \<noteq> PK_SPAWN_EXIT_TYPE_UNKNOWN \<longrightarrow>
            exit (snd (pk_spawn_check_child chunks wpid status w))
              \<in> {exit w, PK_SPAWN_EXIT_TYPE_DISPATCHER_CHANGED, PK_SPAWN_EXIT_TYPE_DISPATCHER_EXIT})"
proof (intro conjI)
  show "snd (pk_spawn_check_child chunks wpid status w) =
           emit_exit (quit_exit_loop (cancel_sigkill
             ((default_exit status (close_resources (stop_poll (drain chunks w))))
                \<lparr>finished := True\<rparr>)))"
    using assms by (simp add: check_child_stages drain_eq)
  show "exit (default_exit status v) =
           (if exit v = PK_SPAWN_EXIT_TYPE_UNKNOWN
            then (if WEXITSTATUS status = 0 then PK_SPAWN_EXIT_TYPE_SUCCESS
                  else PK_SPAWN_EXIT_TYPE_FAILED)
            else exit v)"
    by (simp add: default_exit_eq WEXITSTATUS_pos)
  show "\<not> (exit_loop w \<and> (is_changing_dispatcher w \<or> is_sending_exit w)) \<longrightarrow>
            exit (snd (pk_spawn_check_child chunks wpid status w)) =
              (if exit w = PK_SPAWN_EXIT_TYPE_UNKNOWN
               then (if WEXITSTATUS status = 0 then PK_SPAWN_EXIT_TYPE_SUCCESS
                     else PK_SPAWN_EXIT_TYPE_FAILED)
               else exit w)"
    using assms by (auto simp: check_child_reap reaped_def reap_exit_def WEXITSTATUS_pos)
  show "exit w \<noteq> PK_SPAWN_EXIT_TYPE_UNKNOWN \<longrightarrow>
            exit (snd (pk_spawn_check_child chunks wpid status w))
              \<in> {exit w, PK_SPAWN_EXIT_TYPE_DISPATCHER_CHANGED, PK_SPAWN_EXIT_TYPE_DISPATCHER_EXIT}"
    using assms by (auto simp: check_child_reap reaped_def reap_exit_def)
qed

theorem check_child_exit_code_mapping_witness:
  "exit (snd (pk_spawn_check_child [] 4242 0 running)) = PK_SPAWN_EXIT_TYPE_SUCCESS
   \<and> exit (snd (pk_spawn_check_child [] 4242 0x100 running)) = PK_SPAWN_EXIT_TYPE_FAILED
   \<and> exit (snd (pk_spawn_check_child [] 4242 0x100 relaunched)) = PK_SPAWN_EXIT_TYPE_SUCCESS"
proof -
  have s: "WEXITSTATUS 0 = 0" "WEXITSTATUS 0x100 \<noteq> 0" by code_simp+
  have r: "\<not> finished running" "4242 = child_pid running"
    "\<not> (exit_loop running \<and> (is_changing_dispatcher running \<or> is_sending_exit running))"
    "exit running = PK_SPAWN_EXIT_TYPE_UNKNOWN"
    by (simp_all add: running_eq)
  have l: "\<not> finished relaunched" "4242 = child_pid relaunched"
    "\<not> (exit_loop relaunched \<and> (is_changing_dispatcher relaunched \<or> is_sending_exit relaunched))"
    "exit relaunched = PK_SPAWN_EXIT_TYPE_SUCCESS"
    by (simp_all add: relaunched_eq)
  from check_child_exit_code_mapping [OF r(1,2), where chunks = "[]" and status = 0] r(3)
  have "exit (snd (pk_spawn_check_child [] 4242 0 running)) =
      (if exit running = PK_SPAWN_EXIT_TYPE_UNKNOWN
       then (if WEXITSTATUS 0 = 0 then PK_SPAWN_EXIT_TYPE_SUCCESS else PK_SPAWN_EXIT_TYPE_FAILED)
       else exit running)"
    by blast
  then have a: "exit (snd (pk_spawn_check_child [] 4242 0 running)) = PK_SPAWN_EXIT_TYPE_SUCCESS"
    by (simp add: r(4) s)
  from check_child_exit_code_mapping [OF r(1,2), where chunks = "[]" and status = "0x100"] r(3)
  have "exit (snd (pk_spawn_check_child [] 4242 0x100 running)) =
      (if exit running = PK_SPAWN_EXIT_TYPE_UNKNOWN
       then (if WEXITSTATUS 0x100 = 0 then PK_SPAWN_EXIT_TYPE_SUCCESS else PK_SPAWN_EXIT_TYPE_FAILED)
       else exit running)"
    by blast
  then have b: "exit (snd (pk_spawn_check_child [] 4242 0x100 running)) = PK_SPAWN_EXIT_TYPE_FAILED"
    by (simp add: r(4) s)
  from check_child_exit_code_mapping [OF l(1,2), where chunks = "[]" and status = "0x100"] l(3)
  have "exit (snd (pk_spawn_check_child [] 4242 0x100 relaunched)) =
      (if exit relaunched = PK_SPAWN_EXIT_TYPE_UNKNOWN
       then (if WEXITSTATUS 0x100 = 0 then PK_SPAWN_EXIT_TYPE_SUCCESS else PK_SPAWN_EXIT_TYPE_FAILED)
       else exit relaunched)"
    by blast
  then have c: "exit (snd (pk_spawn_check_child [] 4242 0x100 relaunched)) = PK_SPAWN_EXIT_TYPE_SUCCESS"
    by (simp add: l(4))
  from a b c show ?thesis by blast
qed

text \<open>
  Claim C4. When the tick reaps the child while \<^verbatim>\<open>pk_spawn_exit\<close> waits in its main
  loop, the classification it ends with is dispatcher-changed if
  \<open>is_changing_dispatcher\<close> is set, else dispatcher-exit if \<open>is_sending_exit\<close> is set,
  whatever the default assignment made of it; only with neither flag set does the
  default stand. The exit signal, the last thing the tick emits, carries that final
  classification, and the loop is no longer running.
\<close>

theorem check_child_reclassifies:
  assumes "\<not> finished w" and "wpid = child_pid w" and "exit_loop w"
  shows "exit (snd (pk_spawn_check_child chunks wpid status w)) =
           (if is_changing_dispatcher w then PK_SPAWN_EXIT_TYPE_DISPATCHER_CHANGED
            else if is_sending_exit w then PK_SPAWN_EXIT_TYPE_DISPATCHER_EXIT
            else if exit w = PK_SPAWN_EXIT_TYPE_UNKNOWN
            then (if WEXITSTATUS status = 0 then PK_SPAWN_EXIT_TYPE_SUCCESS
                  else PK_SPAWN_EXIT_TYPE_FAILED)
            else exit w)
       \<and> trace (snd (pk_spawn_check_child chunks wpid status w)) =
           trace w @ map Emit_stdout (drained chunks w)
           @ [Sys_close (stdin_fd w), Sys_close (stdout_fd w),
              Emit_exit (exit (snd (pk_spawn_check_child chunks wpid status w)))]
       \<and> \<not> exit_loop (snd (pk_spawn_check_child chunks wpid status w))"
  using assms by (simp add: check_child_reap reaped_def reap_exit_def WEXITSTATUS_pos)

theorem check_child_reclassifies_witness:
  "exit (snd (pk_spawn_check_child [] 4242 0
       (running\<lparr>is_sending_exit := True, exit_loop := True\<rparr>))) = PK_SPAWN_EXIT_TYPE_DISPATCHER_EXIT
   \<and> exit (snd (pk_spawn_check_child [] 4242 0
       (running\<lparr>is_sending_exit := True, is_changing_dispatcher := True, exit_loop := True\<rparr>)))
       = PK_SPAWN_EXIT_TYPE_DISPATCHER_CHANGED
   \<and> trace (snd (pk_spawn_check_child [] 4242 0
       (running\<lparr>is_sending_exit := True, exit_loop := True\<rparr>))) =
       [Sys_spawn [''helper'', ''search-name''] None, Sys_close 7, Sys_close 8,
        Emit_exit PK_SPAWN_EXIT_TYPE_DISPATCHER_EXIT]"
proof -
  define w1 where "w1 = running\<lparr>is_sending_exit := True, exit_loop := True\<rparr>"
  define w2 where "w2 = running\<lparr>is_sending_exit := True, is_changing_dispatcher := True, exit_loop := True\<rparr>"
  have f1: "\<not> finished w1" "4242 = child_pid w1" "exit_loop w1" "\<not> is_changing_dispatcher w1"
    "is_sending_exit w1" "trace w1 = [Sys_spawn [''helper'', ''search-name''] None]"
    "stdin_fd w1 = 7" "stdout_fd w1 = 8" "stdout_buf w1 = []"
    by (simp_all add: w1_def running_eq)
  have f2: "\<not> finished w2" "4242 = child_pid w2" "exit_loop w2" "is_changing_dispatcher w2"
    by (simp_all add: w2_def running_eq)
  have "exit (snd (pk_spawn_check_child [] 4242 0 w1)) = PK_SPAWN_EXIT_TYPE_DISPATCHER_EXIT
    \<and> trace (snd (pk_spawn_check_child [] 4242 0 w1)) =
       [Sys_spawn [''helper'', ''search-name''] None, Sys_close 7, Sys_close 8,
        Emit_exit PK_SPAWN_EXIT_TYPE_DISPATCHER_EXIT]"
    using check_child_reclassifies [OF f1(1,2,3), of "[]" 0] f1(4-9) by (simp add: drained_Nil)
  moreover have "exit (snd (pk_spawn_check_child [] 4242 0 w2)) = PK_SPAWN_EXIT_TYPE_DISPATCHER_CHANGED"
    using check_child_reclassifies [OF f2(1,2,3), of "[]" 0] f2(4) by simp
  ultimately show ?thesis unfolding w1_def w2_def by simp
qed

subsection \<open>Forced termination\<close>

text \<open>
  Claim C3 says that \<^verbatim>\<open>pk_spawn_kill\<close> sets the classification to sigquit only if it
  is still unknown. The assignment in the code has no such test. In the run below the
  first helper exited with code 0, the classification stayed success across the
  relaunch, and the call replaces it.
\<close>

theorem kill_overwrites_counterexample:
  "\<not> finished relaunched \<and> exit relaunched = PK_SPAWN_EXIT_TYPE_SUCCESS
   \<and> exit (snd (pk_spawn_kill 0 relaunched)) = PK_SPAWN_EXIT_TYPE_SIGQUIT"
  by code_simp

text \<open>
  Claim C3 as the code has it: while the child is not finished, \<^verbatim>\<open>pk_spawn_kill\<close>
  sets the classification to sigquit whatever it was and whatever \<^verbatim>\<open>kill\<close> returns;
  once the child is finished it leaves the classification alone.
\<close>

theorem kill_sets_sigquit:
  "exit (snd (pk_spawn_kill retval w)) =
     (if finished w then exit w else PK_SPAWN_EXIT_TYPE_SIGQUIT)"
  by (cases "retval = EINVAL \<or> retval = EPERM")
    (auto simp: kill_finished kill_refused kill_armed)

theorem kill_sets_sigquit_witness:
  "exit (snd (pk_spawn_kill 0 relaunched)) = PK_SPAWN_EXIT_TYPE_SIGQUIT
   \<and> exit relaunched = PK_SPAWN_EXIT_TYPE_SUCCESS"
  using kill_sets_sigquit [of 0 relaunched] by (simp add: relaunched_eq)

text \<open>
  Claim C5. \<^verbatim>\<open>pk_spawn_kill\<close> compares the value \<^verbatim>\<open>kill\<close> returns with \<^verbatim>\<open>EINVAL\<close> and
  \<^verbatim>\<open>EPERM\<close>, but \<^verbatim>\<open>kill\<close> reports both as \<open>-1\<close> with the reason in \<^verbatim>\<open>errno\<close>. On a
  running helper, with the system refusing the signal for either reason, the call
  returns \<^verbatim>\<open>TRUE\<close> and the SIGKILL timeout is attached next to the poll source.
\<close>

theorem kill_errno_arms_timer:
  "kill_retval (Kill_errno EPERM) = -1
   \<and> kill_retval (Kill_errno EINVAL) = -1
   \<and> \<not> finished running
   \<and> fst (pk_spawn_kill (kill_retval (Kill_errno EPERM)) running)
   \<and> sources (snd (pk_spawn_kill (kill_retval (Kill_errno EPERM)) running)) =
       [(1, 50, PK_SPAWN_CHECK_CHILD), (2, 500, PK_SPAWN_SIGKILL_CB)]
   \<and> fst (pk_spawn_kill (kill_retval (Kill_errno EINVAL)) running)
   \<and> sources (snd (pk_spawn_kill (kill_retval (Kill_errno EINVAL)) running)) =
       [(1, 50, PK_SPAWN_CHECK_CHILD), (2, 500, PK_SPAWN_SIGKILL_CB)]"
  by code_simp

subsection \<open>Launch and reuse\<close>

text \<open>
  Claim C2 says that the running child is reused exactly when a child is running, the
  executable matches and the environment matches. The code adds a condition: the
  write of the command line has to report its full length. In the run below all three
  conditions of the claim hold and the write fails; the call writes the exit line,
  waits for the old child and spawns a new process with pid 4243.
\<close>

theorem reuse_counterexample:
  "stdin_fd running \<noteq> -1
   \<and> last_argv0 running = Some ''helper''
   \<and> last_envp running = None
   \<and> pk_spawn_argv write_fails ''helper'' [''search-name''] None running \<noteq>
       Returns True (running\<lparr>trace := trace running
                        @ [Sys_write (stdin_fd running) (g_strjoinv TAB [''search-name''] @ [LF])]\<rparr>)
   \<and> trace (world_of (pk_spawn_argv write_fails ''helper'' [''search-name''] None running)) =
       [Sys_spawn [''helper'', ''search-name''] None,
        Sys_write 7 ''search-name\<newline>'', Sys_write 7 ''exit\<newline>'',
        Sys_close 7, Sys_close 8, Emit_exit PK_SPAWN_EXIT_TYPE_DISPATCHER_CHANGED,
        Sys_spawn [''helper'', ''search-name''] None]
   \<and> child_pid (world_of (pk_spawn_argv write_fails ''helper'' [''search-name''] None running)) = 4243"
  by code_simp

text \<open>
  Claim C2 as the code has it, in every state a freshly constructed spawner can reach.
  The call returns \<^verbatim>\<open>TRUE\<close> having done nothing but write the tab-joined command
  line with its newline to the child's stdin exactly when a child is running
  (\<open>stdin_fd\<close> is set), \<^verbatim>\<open>argv[0]\<close> equals \<open>last_argv0\<close>, \<open>envp\<close> equals \<open>last_envp\<close>
  (absent equal to absent only) and the write reports the full length. With a child
  running and a mismatch of the executable or of the environment, the call is the
  graceful exit of the old instance followed by the creation of a new one; so it is
  when both match and the write falls short, after the attempted write. With no child
  running, the call is the creation of a new instance.
\<close>

theorem reuse_iff:
  assumes "w = exec steps (pk_spawn_init nice)"
  shows "(pk_spawn_argv sys argv0 args envp w =
            Returns True (w\<lparr>trace := trace w @ [Sys_write (stdin_fd w) (g_strjoinv TAB args @ [LF])]\<rparr>)
          \<longleftrightarrow> stdin_fd w \<noteq> -1 \<and> last_argv0 w = Some argv0 \<and> last_envp w = envp
              \<and> reuse_wrote sys = int (length (g_strjoinv TAB args @ [LF])))
       \<and> (stdin_fd w \<noteq> -1 \<and> \<not> (last_argv0 w = Some argv0 \<and> last_envp w = envp) \<longrightarrow>
            pk_spawn_argv sys argv0 args envp w =
              (case change_dispatcher sys w of
                 Returns u w' \<Rightarrow> spawn_instance sys argv0 args envp w'
               | Blocks w' \<Rightarrow> Blocks w'
               | Aborts w' \<Rightarrow> Aborts w'))
       \<and> (stdin_fd w \<noteq> -1 \<and> last_argv0 w = Some argv0 \<and> last_envp w = envp
            \<and> reuse_wrote sys \<noteq> int (length (g_strjoinv TAB args @ [LF])) \<longrightarrow>
            pk_spawn_argv sys argv0 args envp w =
              (case change_dispatcher sys
                      (w\<lparr>trace := trace w @ [Sys_write (stdin_fd w) (g_strjoinv TAB args @ [LF])]\<rparr>) of
                 Returns u w' \<Rightarrow> spawn_instance sys argv0 args envp w'
               | Blocks w' \<Rightarrow> Blocks w'
               | Aborts w' \<Rightarrow> Aborts w'))
       \<and> (stdin_fd w = -1 \<longrightarrow>
            pk_spawn_argv sys argv0 args envp w = spawn_instance sys argv0 args envp w)"
proof -
  let ?cmd = "g_strjoinv TAB args @ [LF]"
  let ?written = "w\<lparr>trace := trace w @ [Sys_write (stdin_fd w) ?cmd]\<rparr>"
  let ?respawn = "\<lambda>w0. case change_dispatcher sys w0 of
                 Returns u w' \<Rightarrow> spawn_instance sys argv0 args envp w'
               | Blocks w' \<Rightarrow> Blocks w'
               | Aborts w' \<Rightarrow> Aborts w'"
  have "finished_closed w"
    unfolding assms
    by (rule preserved_exec [OF preserved_finished_closed]) (simp add: finished_closed_def pk_spawn_init_def)
  then have running: "\<not> finished w" if "stdin_fd w \<noteq> -1"
    using that by (auto simp: finished_closed_def)
  have idle: "pk_spawn_argv sys argv0 args envp w = spawn_instance sys argv0 args envp w"
    if "stdin_fd w = -1"
    using that by (simp add: pk_spawn_argv_def)
  have mismatch: "pk_spawn_argv sys argv0 args envp w = ?respawn w"
    if "stdin_fd w \<noteq> -1" "\<not> (last_argv0 w = Some argv0 \<and> last_envp w = envp)"
    using that by (auto simp: pk_spawn_argv_def egg_strequal_iff egg_strvequal_iff)
  have short: "pk_spawn_argv sys argv0 args envp w = ?respawn ?written"
    if "stdin_fd w \<noteq> -1" "last_argv0 w = Some argv0" "last_envp w = envp"
      "reuse_wrote sys \<noteq> int (length ?cmd)"
    using that running
    by (simp add: pk_spawn_argv_def egg_strequal_iff egg_strvequal_iff send_stdin_eq)
  have full: "pk_spawn_argv sys argv0 args envp w = Returns True ?written"
    if "stdin_fd w \<noteq> -1" "last_argv0 w = Some argv0" "last_envp w = envp"
      "reuse_wrote sys = int (length ?cmd)"
    using that running
    by (simp add: pk_spawn_argv_def egg_strequal_iff egg_strvequal_iff send_stdin_eq)
  have no_spawn: "spawn_instance sys argv0 args envp w \<noteq> Returns True ?written"
  proof
    assume "spawn_instance sys argv0 args envp w = Returns True ?written"
    from spawn_instance_trace [OF this] show False by simp
  qed
  have no_respawn: "?respawn w \<noteq> Returns True ?written"
  proof
    assume "?respawn w = Returns True ?written"
    from respawn_trace [OF this] show False by (auto simp: Cons_eq_append_conv)
  qed
  have no_respawn': "?respawn ?written \<noteq> Returns True ?written"
  proof
    assume "?respawn ?written = Returns True ?written"
    from respawn_trace [OF this] show False by simp
  qed
  have iff: "pk_spawn_argv sys argv0 args envp w = Returns True ?written
      \<longleftrightarrow> stdin_fd w \<noteq> -1 \<and> last_argv0 w = Some argv0 \<and> last_envp w = envp
          \<and> reuse_wrote sys = int (length ?cmd)"
    using idle mismatch short full no_spawn no_respawn no_respawn' by metis
  from iff idle mismatch short show ?thesis by blast
qed

theorem reuse_iff_witness:
  "pk_spawn_argv (launch_ok\<lparr>reuse_wrote := 12\<rparr>) ''helper'' [''search-name''] None running =
     Returns True (running\<lparr>trace := trace running @ [Sys_write 7 ''search-name\<newline>'']\<rparr>)
   \<and> pk_spawn_argv write_fails ''other'' [''search-name''] None running =
       (case change_dispatcher write_fails running of
          Returns u w' \<Rightarrow> spawn_instance write_fails ''other'' [''search-name''] None w'
        | Blocks w' \<Rightarrow> Blocks w'
        | Aborts w' \<Rightarrow> Aborts w')
   \<and> pk_spawn_argv launch_ok ''helper'' [''search-name''] None (pk_spawn_init 0) =
       spawn_instance launch_ok ''helper'' [''search-name''] None (pk_spawn_init 0)"
proof -
  have r: "running = exec [Call_argv launch_ok ''helper'' [''search-name''] None] (pk_spawn_init 0)"
    by (simp add: running_def)
  have i: "pk_spawn_init 0 = exec [] (pk_spawn_init 0)"
    by simp
  have f: "stdin_fd running = 7" "last_argv0 running = Some ''helper''" "last_envp running = None"
    by (simp_all add: running_eq)
  have c: "g_strjoinv TAB [''search-name''] @ [LF] = ''search-name\<newline>''"
    "reuse_wrote (launch_ok\<lparr>reuse_wrote := 12\<rparr>) = int (length ''search-name\<newline>'')"
    by simp_all
  have "pk_spawn_argv (launch_ok\<lparr>reuse_wrote := 12\<rparr>) ''helper'' [''search-name''] None running =
     Returns True (running\<lparr>trace := trace running @ [Sys_write 7 ''search-name\<newline>'']\<rparr>)"
    using reuse_iff [OF r, of "launch_ok\<lparr>reuse_wrote := 12\<rparr>" "''helper''" "[''search-name'']" None]
    unfolding c f by simp
  moreover have "pk_spawn_argv write_fails ''other'' [''search-name''] None running =
       (case change_dispatcher write_fails running of
          Returns u w' \<Rightarrow> spawn_instance write_fails ''other'' [''search-name''] None w'
        | Blocks w' \<Rightarrow> Blocks w'
        | Aborts w' \<Rightarrow> Aborts w')"
    using reuse_iff [OF r, of write_fails "''other''" "[''search-name'']" None]
    unfolding f by simp
  moreover have "pk_spawn_argv launch_ok ''helper'' [''search-name''] None (pk_spawn_init 0) =
       spawn_instance launch_ok ''helper'' [''search-name''] None (pk_spawn_init 0)"
    using reuse_iff [OF i, of launch_ok "''helper''" "[''search-name'']" None]
    by (simp add: pk_spawn_init_def)
  ultimately show ?thesis by blast
qed

subsection \<open>Graceful exit\<close>

text \<open>
  Claim C7. Let \<^verbatim>\<open>pk_spawn_exit\<close> be called while no exit is being sent, on a child
  that is not finished, and let the write of the exit line report its full length.
  Then the call never aborts; if it returns, it returns \<^verbatim>\<open>TRUE\<close> and the child has
  been reaped: \<open>finished\<close> is true, the pid and both pipe ends are cleared and the loop
  no longer runs. If the iterations run out first, the call has not returned and the
  child is still not finished. The loop is quit only by the reap: a dispatch that takes
  a running loop to a stopped one is a dispatch of the poll callback at which
  \<^verbatim>\<open>waitpid\<close> returned the child's pid, and it sets \<open>finished\<close>.
\<close>

theorem graceful_exit_waits_for_reap:
  assumes "\<not> is_sending_exit w" and "\<not> finished w" and "wrote = int (length ''exit\<newline>'')"
  shows "(case pk_spawn_exit wrote evs w of
            Returns r w' \<Rightarrow> r \<and> finished w' \<and> child_pid w' = -1 \<and> stdin_fd w' = -1
                             \<and> stdout_fd w' = -1 \<and> \<not> exit_loop w'
          | Blocks w' \<Rightarrow> \<not> finished w' \<and> exit_loop w'
          | Aborts w' \<Rightarrow> False)
       \<and> (exit_loop v \<and> \<not> exit_loop (dispatch e v) \<longrightarrow>
            \<not> finished v \<and> finished (dispatch e v)
            \<and> (\<exists>tag sys iv. e = Dispatch tag sys
                 \<and> map_of (sources v) tag = Some (iv, PK_SPAWN_CHECK_CHILD)
                 \<and> waitpid_ret sys = child_pid v))"
proof
  let ?w = "w\<lparr>is_sending_exit := True,
               trace := trace w @ [Sys_write (stdin_fd w) ''exit\<newline>''],
               exit_loop := True\<rparr>"
  from assms have eq: "pk_spawn_exit wrote evs w =
     (case main_loop_iterate evs ?w of
        Returns u w3 \<Rightarrow> Returns True (w3\<lparr>is_sending_exit := False\<rparr>)
      | Blocks w3 \<Rightarrow> Blocks w3
      | Aborts w3 \<Rightarrow> Aborts w3)"
    by (intro exit_written) simp_all
  from assms(2) have "exit_loop ?w" "\<not> finished ?w" by simp_all
  from main_loop_iterate_result [OF this, of evs]
  show "case pk_spawn_exit wrote evs w of
            Returns r w' \<Rightarrow> r \<and> finished w' \<and> child_pid w' = -1 \<and> stdin_fd w' = -1
                             \<and> stdout_fd w' = -1 \<and> \<not> exit_loop w'
          | Blocks w' \<Rightarrow> \<not> finished w' \<and> exit_loop w'
          | Aborts w' \<Rightarrow> False"
    unfolding eq by (cases "main_loop_iterate evs ?w") simp_all
  show "exit_loop v \<and> \<not> exit_loop (dispatch e v) \<longrightarrow>
            \<not> finished v \<and> finished (dispatch e v)
            \<and> (\<exists>tag sys iv. e = Dispatch tag sys
                 \<and> map_of (sources v) tag = Some (iv, PK_SPAWN_CHECK_CHILD)
                 \<and> waitpid_ret sys = child_pid v)"
    using dispatch_quits [of v e] by blast
qed

theorem graceful_exit_waits_for_reap_witness:
  "finished (world_of (pk_spawn_exit 5
      [Dispatch 1 (child_running [''bye\<newline>'']), Dispatch 1 (child_exited 0)] running))
   \<and> \<not> finished (world_of (pk_spawn_exit 5 [Dispatch 1 (child_running [''bye\<newline>''])] running))
   \<and> exit_loop (running\<lparr>exit_loop := True\<rparr>)
   \<and> \<not> exit_loop (dispatch (Dispatch 1 (child_exited 0)) (running\<lparr>exit_loop := True\<rparr>))
   \<and> finished (dispatch (Dispatch 1 (child_exited 0)) (running\<lparr>exit_loop := True\<rparr>))"
proof -
  have r: "\<not> is_sending_exit running" "\<not> finished running" "5 = int (length ''exit\<newline>'')"
    by (simp_all add: running_eq)
  have a: "case pk_spawn_exit 5
      [Dispatch 1 (child_running [''bye\<newline>'']), Dispatch 1 (child_exited 0)] running of
      Returns r w' \<Rightarrow> True | Blocks w' \<Rightarrow> False | Aborts w' \<Rightarrow> False"
    by code_simp
  have b: "case pk_spawn_exit 5 [Dispatch 1 (child_running [''bye\<newline>''])] running of
      Returns r w' \<Rightarrow> False | Blocks w' \<Rightarrow> True | Aborts w' \<Rightarrow> False"
    by code_simp
  have c: "exit_loop (running\<lparr>exit_loop := True\<rparr>)"
    "\<not> exit_loop (dispatch (Dispatch 1 (child_exited 0)) (running\<lparr>exit_loop := True\<rparr>))"
    by simp code_simp
  from a graceful_exit_waits_for_reap [OF r, of "[Dispatch 1 (child_running [''bye\<newline>'']), Dispatch 1 (child_exited 0)]"]
  have 1: "finished (world_of (pk_spawn_exit 5
      [Dispatch 1 (child_running [''bye\<newline>'']), Dispatch 1 (child_exited 0)] running))"
    by (auto split: outcome.splits)
  from b graceful_exit_waits_for_reap [OF r, of "[Dispatch 1 (child_running [''bye\<newline>''])]"]
  have 2: "\<not> finished (world_of (pk_spawn_exit 5 [Dispatch 1 (child_running [''bye\<newline>''])] running))"
    by (auto split: outcome.splits)
  from c graceful_exit_waits_for_reap [OF r, of _ "running\<lparr>exit_loop := True\<rparr>" "Dispatch 1 (child_exited 0)"]
  have 3: "finished (dispatch (Dispatch 1 (child_exited 0)) (running\<lparr>exit_loop := True\<rparr>))"
    by blast
  from 1 2 3 c show ?thesis by blast
qed

text \<open>
  Claim C9. Under the same conditions on the first call: if the poll source is attached
  and the nested loop is given a tick at which \<^verbatim>\<open>waitpid\<close> reports the child, the
  first call returns \<^verbatim>\<open>TRUE\<close>; and whenever the first call returns, it returns
  \<^verbatim>\<open>TRUE\<close> with the child finished, and a second call, whatever the system would
  answer, returns \<^verbatim>\<open>FALSE\<close> and leaves the world as it was, trace included.
\<close>

theorem graceful_exit_twice:
  assumes "\<not> is_sending_exit w" and "\<not> finished w" and "wrote = int (length ''exit\<newline>'')"
  shows "(map_of (sources w) (poll_id w) = Some (iv, PK_SPAWN_CHECK_CHILD)
          \<and> Dispatch (poll_id w) sys \<in> set evs \<and> waitpid_ret sys = child_pid w \<longrightarrow>
            (\<exists>w1. pk_spawn_exit wrote evs w = Returns True w1))
       \<and> (pk_spawn_exit wrote evs w = Returns r w1 \<longrightarrow>
            r \<and> finished w1 \<and> pk_spawn_exit wrote2 evs2 w1 = Returns False w1)"
proof (intro conjI impI)
  let ?w = "w\<lparr>is_sending_exit := True,
               trace := trace w @ [Sys_write (stdin_fd w) ''exit\<newline>''],
               exit_loop := True\<rparr>"
  from assms have eq: "pk_spawn_exit wrote evs w =
     (case main_loop_iterate evs ?w of
        Returns u w3 \<Rightarrow> Returns True (w3\<lparr>is_sending_exit := False\<rparr>)
      | Blocks w3 \<Rightarrow> Blocks w3
      | Aborts w3 \<Rightarrow> Aborts w3)"
    by (intro exit_written) simp_all
  {
    assume "map_of (sources w) (poll_id w) = Some (iv, PK_SPAWN_CHECK_CHILD)
          \<and> Dispatch (poll_id w) sys \<in> set evs \<and> waitpid_ret sys = child_pid w"
    with assms(2) have "\<exists>w'. main_loop_iterate evs ?w = Returns () w'"
      by (intro main_loop_iterate_returns [where iv = iv and sys = sys]) simp_all
    then show "\<exists>w1. pk_spawn_exit wrote evs w = Returns True w1"
      unfolding eq by auto
  }
  assume ret: "pk_spawn_exit wrote evs w = Returns r w1"
  from assms(2) have "exit_loop ?w" "\<not> finished ?w" by simp_all
  from main_loop_iterate_result [OF this, of evs] ret
  have "r \<and> finished w1 \<and> \<not> is_sending_exit w1"
    unfolding eq by (cases "main_loop_iterate evs ?w") auto
  then show r "finished w1" "pk_spawn_exit wrote2 evs2 w1 = Returns False w1"
    by (simp_all add: exit_after_finished)
qed

theorem graceful_exit_twice_witness:
  "\<exists>w1. pk_spawn_exit 5 [Dispatch 1 (child_exited 0)] running = Returns True w1
        \<and> finished w1
        \<and> pk_spawn_exit 5 [Dispatch 1 (child_exited 0)] w1 = Returns False w1"
proof -
  have r: "\<not> is_sending_exit running" "\<not> finished running" "5 = int (length ''exit\<newline>'')"
    by (simp_all add: running_eq)
  have live: "map_of (sources running) (poll_id running) = Some (50, PK_SPAWN_CHECK_CHILD)
      \<and> Dispatch (poll_id running) (child_exited 0) \<in> set [Dispatch 1 (child_exited 0)]
      \<and> waitpid_ret (child_exited 0) = child_pid running"
    by (simp add: running_eq child_exited_def)
  note t = graceful_exit_twice [OF r, of 50 "child_exited 0" "[Dispatch 1 (child_exited 0)]"]
  from t live obtain w1 where 1: "pk_spawn_exit 5 [Dispatch 1 (child_exited 0)] running = Returns True w1"
    by blast
  with t [of True w1 5 "[Dispatch 1 (child_exited 0)]"]
  have "finished w1 \<and> pk_spawn_exit 5 [Dispatch 1 (child_exited 0)] w1 = Returns False w1"
    by blast
  with 1 show ?thesis by blast
qed

subsection \<open>The escalation from SIGQUIT to SIGKILL\<close>

text \<open>
  Claim C8 says that in every execution SIGKILL is sent to the child only after SIGQUIT
  was sent to it. \<^verbatim>\<open>pk_spawn_kill\<close> stores the identifier of the timeout it attaches
  in \<open>kill_id\<close>, over the identifier left by an earlier call (line 287), and the reap
  cancels only the stored one (lines 199 to 201). In the run below the helper with pid
  4242 is killed twice, exits and is reaped, and a new helper with pid 4243 is
  launched, which sets \<open>finished\<close> back to false. The timeout of the first call is
  still attached under identifier 2; when it fires it finds \<open>finished\<close> false and
  sends SIGKILL to pid 4243, to which no SIGQUIT was ever sent, and the new helper is
  classified sigkill.
\<close>

theorem stale_timeout_sigkill:
  "sources (exec [Call_argv launch_ok ''helper'' [''search-name''] None, Call_kill 0, Call_kill 0,
                  Iterate (Dispatch 1 (child_exited 0)),
                  Call_argv (launch_ok\<lparr>spawn_result := Some (4243, 9, 10)\<rparr>)
                    ''helper'' [''search-name''] None] (pk_spawn_init 0)) =
     [(2, 500, PK_SPAWN_SIGKILL_CB), (4, 50, PK_SPAWN_CHECK_CHILD)]
   \<and> trace (exec [Call_argv launch_ok ''helper'' [''search-name''] None, Call_kill 0, Call_kill 0,
                  Iterate (Dispatch 1 (child_exited 0)),
                  Call_argv (launch_ok\<lparr>spawn_result := Some (4243, 9, 10)\<rparr>)
                    ''helper'' [''search-name''] None,
                  Iterate (Dispatch 2 (child_running []))] (pk_spawn_init 0)) =
     [Sys_spawn [''helper'', ''search-name''] None, Sys_kill 4242 SIGQUIT, Sys_kill 4242 SIGQUIT,
      Sys_close 7, Sys_close 8, Emit_exit PK_SPAWN_EXIT_TYPE_SIGQUIT,
      Sys_spawn [''helper'', ''search-name''] None, Sys_kill 4243 SIGKILL]
   \<and> Sys_kill 4243 SIGQUIT \<notin>
       set (trace (exec [Call_argv launch_ok ''helper'' [''search-name''] None, Call_kill 0, Call_kill 0,
                  Iterate (Dispatch 1 (child_exited 0)),
                  Call_argv (launch_ok\<lparr>spawn_result := Some (4243, 9, 10)\<rparr>)
                    ''helper'' [''search-name''] None,
                  Iterate (Dispatch 2 (child_running []))] (pk_spawn_init 0)))
   \<and> exit (exec [Call_argv launch_ok ''helper'' [''search-name''] None, Call_kill 0, Call_kill 0,
                  Iterate (Dispatch 1 (child_exited 0)),
                  Call_argv (launch_ok\<lparr>spawn_result := Some (4243, 9, 10)\<rparr>)
                    ''helper'' [''search-name''] None,
                  Iterate (Dispatch 2 (child_running []))] (pk_spawn_init 0)) =
     PK_SPAWN_EXIT_TYPE_SIGKILL"
  by code_simp

subsection \<open>The drain step\<close>

text \<open>
  Claim C6. Whatever the stdout buffer holds, \<^verbatim>\<open>pk_spawn_emit_whole_lines\<close> emits one
  line event for every newline in it: the pieces of the split except the last, in
  order, none of them containing a newline. It erases from the front of the buffer
  exactly the bytes of these lines with their newlines, so that the old buffer is the
  emitted lines, each followed by its newline, followed by the new buffer; what stays
  holds no newline. Nothing else changes.
\<close>

theorem emit_whole_lines_drain:
  "let lines = butlast (g_strsplit (c_str (stdout_buf w)) LF);
       w' = snd (pk_spawn_emit_whole_lines w)
   in trace w' = trace w @ map Emit_stdout lines
    \<and> length lines = count_list (c_str (stdout_buf w)) LF
    \<and> LF \<notin> set (concat lines)
    \<and> stdout_buf w' = drop (sum_list (map (\<lambda>l. length l + 1) lines)) (stdout_buf w)
    \<and> stdout_buf w = concat (map (\<lambda>l. l @ [LF]) lines) @ stdout_buf w'
    \<and> LF \<notin> set (c_str (stdout_buf w'))
    \<and> w' = w\<lparr>trace := trace w', stdout_buf := stdout_buf w'\<rparr>"
proof -
  define s where "s = c_str (stdout_buf w)"
  define lines where "lines = butlast (g_strsplit s LF)"
  define n where "n = sum_list (map (\<lambda>l. length l + 1) lines)"
  define w' where "w' = snd (pk_spawn_emit_whole_lines w)"
  have w': "w' = w\<lparr>trace := trace w @ map Emit_stdout lines, stdout_buf := drop n (stdout_buf w)\<rparr>"
    by (simp add: w'_def emit_whole_lines_eq Let_def lines_def n_def s_def)
  have join: "concat (map (\<lambda>l. l @ [LF]) lines) @ last (split_on LF s) = s"
  proof (cases "s = []")
    case True
    then show ?thesis by (simp add: lines_def g_strsplit_def)
  next
    case False
    then show ?thesis by (simp add: lines_def g_strsplit_def split_on_rejoin)
  qed
  have n: "n = length (concat (map (\<lambda>l. l @ [LF]) lines))"
    unfolding n_def by (rule sum_lengths)
  have "length s = n + length (last (split_on LF s))"
    using arg_cong [OF join, of length] by (simp add: n)
  then have nle: "n \<le> length s" by simp
  have pre: "take n s = concat (map (\<lambda>l. l @ [LF]) lines)"
    and rest: "drop n s = last (split_on LF s)"
    using join [unfolded append_eq_conv_conj] by (simp_all add: n)
  have "take n (stdout_buf w) = take n (take (length s) (stdout_buf w))"
    using nle by (simp add: min_def)
  then have pre': "take n (stdout_buf w) = concat (map (\<lambda>l. l @ [LF]) lines)"
    by (simp add: s_def c_str_prefix pre [unfolded s_def])
  have c1: "trace w' = trace w @ map Emit_stdout lines" by (simp add: w')
  have c2: "length lines = count_list s LF"
    by (cases "s = []") (simp_all add: lines_def g_strsplit_def length_split_on)
  have "set (concat lines) \<subseteq> set (concat (g_strsplit s LF))"
    unfolding lines_def by (auto dest: in_set_butlastD)
  then have c3: "LF \<notin> set (concat lines)"
    using split_on_no_delimiter [of LF s] by (auto simp: g_strsplit_def split: if_splits)
  have c4: "stdout_buf w' = drop n (stdout_buf w)" by (simp add: w')
  have c5: "stdout_buf w = concat (map (\<lambda>l. l @ [LF]) lines) @ stdout_buf w'"
    unfolding c4 pre' [symmetric] by simp
  have "c_str (stdout_buf w') = last (split_on LF s)"
    using nle by (simp add: c4 c_str_drop s_def [symmetric] rest)
  moreover have "set (last (split_on LF s)) \<subseteq> set (concat (split_on LF s))"
    using split_on_not_Nil [of LF s] by (auto intro: last_in_set)
  ultimately have c6: "LF \<notin> set (c_str (stdout_buf w'))"
    using split_on_no_delimiter [of LF s] by auto
  have c7: "w' = w\<lparr>trace := trace w', stdout_buf := stdout_buf w'\<rparr>" by (simp add: w')
  show ?thesis
    unfolding Let_def s_def [symmetric] lines_def [symmetric] n_def [symmetric] w'_def [symmetric]
    using c1 c2 c3 c4 c5 c6 c7 by blast
qed

theorem emit_whole_lines_drain_witness:
  "trace (snd (pk_spawn_emit_whole_lines ((pk_spawn_init 0)\<lparr>stdout_buf := ''ab\<newline>cd\<newline>e''\<rparr>)))
     = [Emit_stdout ''ab'', Emit_stdout ''cd'']
   \<and> stdout_buf (snd (pk_spawn_emit_whole_lines ((pk_spawn_init 0)\<lparr>stdout_buf := ''ab\<newline>cd\<newline>e''\<rparr>)))
     = ''e''"
  using emit_whole_lines_drain [of "(pk_spawn_init 0)\<lparr>stdout_buf := ''ab\<newline>cd\<newline>e''\<rparr>"]
  by (simp add: Let_def pk_spawn_init_def g_strsplit_def c_str_def)

subsection \<open>Relaunching\<close>

text \<open>
  Claim C10. The classification is unknown at construction. A launch on a spawner with
  no child running (none yet, or the previous one reaped) leaves the classification as
  it was and sets \<open>finished\<close> to false, whether or not the new child can be started.
  No launch, and no execution at all, takes a classification that is set back to
  unknown. So when the tick reaps the new child outside a graceful exit and the
  classification is already set, it keeps and emits the old classification whatever
  the new child's wait status is.
\<close>

theorem launch_keeps_exit:
  "exit (pk_spawn_init nice) = PK_SPAWN_EXIT_TYPE_UNKNOWN
   \<and> (stdin_fd w = -1 \<longrightarrow>
        exit (world_of (pk_spawn_argv sys argv0 args envp w)) = exit w
        \<and> \<not> finished (world_of (pk_spawn_argv sys argv0 args envp w)))
   \<and> (exit (world_of (pk_spawn_argv sys argv0 args envp w)) = PK_SPAWN_EXIT_TYPE_UNKNOWN \<longrightarrow>
        exit w = PK_SPAWN_EXIT_TYPE_UNKNOWN)
   \<and> (exit (exec steps w) = PK_SPAWN_EXIT_TYPE_UNKNOWN \<longrightarrow> exit w = PK_SPAWN_EXIT_TYPE_UNKNOWN)
   \<and> (\<not> finished v \<and> \<not> exit_loop v \<and> exit v \<noteq> PK_SPAWN_EXIT_TYPE_UNKNOWN \<longrightarrow>
        exit (snd (pk_spawn_check_child chunks (child_pid v) status v)) = exit v
        \<and> last (trace (snd (pk_spawn_check_child chunks (child_pid v) status v))) = Emit_exit (exit v))"
proof (intro conjI impI)
  show "exit (pk_spawn_init nice) = PK_SPAWN_EXIT_TYPE_UNKNOWN"
    by (simp add: pk_spawn_init_def)
next
  assume "stdin_fd w = -1"
  then have "pk_spawn_argv sys argv0 args envp w = spawn_instance sys argv0 args envp w"
    by (simp add: pk_spawn_argv_def)
  then show "exit (world_of (pk_spawn_argv sys argv0 args envp w)) = exit w"
    "\<not> finished (world_of (pk_spawn_argv sys argv0 args envp w))"
    by (simp_all add: spawn_instance_fields)
next
  assume "exit (world_of (pk_spawn_argv sys argv0 args envp w)) = PK_SPAWN_EXIT_TYPE_UNKNOWN"
  with preserved_argv [OF preserved_classified, of w sys argv0 args envp]
  show "exit w = PK_SPAWN_EXIT_TYPE_UNKNOWN" by blast
next
  assume "exit (exec steps w) = PK_SPAWN_EXIT_TYPE_UNKNOWN"
  with preserved_exec [OF preserved_classified, of w steps]
  show "exit w = PK_SPAWN_EXIT_TYPE_UNKNOWN" by blast
next
  assume v: "\<not> finished v \<and> \<not> exit_loop v \<and> exit v \<noteq> PK_SPAWN_EXIT_TYPE_UNKNOWN"
  then show "exit (snd (pk_spawn_check_child chunks (child_pid v) status v)) = exit v"
    "last (trace (snd (pk_spawn_check_child chunks (child_pid v) status v))) = Emit_exit (exit v)"
    by (simp_all add: check_child_reap reaped_def reap_exit_def)
qed

theorem launch_keeps_exit_witness:
  "stdin_fd (exec [Call_argv launch_ok ''helper'' [''search-name''] None,
                   Iterate (Dispatch 1 (child_exited 0))] (pk_spawn_init 0)) = -1
   \<and> exit (exec [Call_argv launch_ok ''helper'' [''search-name''] None,
                 Iterate (Dispatch 1 (child_exited 0))] (pk_spawn_init 0)) = PK_SPAWN_EXIT_TYPE_SUCCESS
   \<and> exit relaunched = PK_SPAWN_EXIT_TYPE_SUCCESS
   \<and> \<not> finished relaunched
   \<and> WEXITSTATUS 0x100 = 1
   \<and> exit (snd (pk_spawn_check_child [] 4242 0x100 relaunched)) = PK_SPAWN_EXIT_TYPE_SUCCESS
   \<and> last (trace (snd (pk_spawn_check_child [] 4242 0x100 relaunched)))
       = Emit_exit PK_SPAWN_EXIT_TYPE_SUCCESS"
proof -
  let ?reaped = "exec [Call_argv launch_ok ''helper'' [''search-name''] None,
                   Iterate (Dispatch 1 (child_exited 0))] (pk_spawn_init 0)"
  have a: "stdin_fd ?reaped = -1" "exit ?reaped = PK_SPAWN_EXIT_TYPE_SUCCESS"
    "WEXITSTATUS 0x100 = 1"
    by code_simp+
  have b: "world_of (pk_spawn_argv launch_ok ''helper'' [''search-name''] None ?reaped) = relaunched"
    by code_simp
  have c: "child_pid relaunched = 4242" "\<not> exit_loop relaunched"
    by (simp_all add: relaunched_eq)
  note t = launch_keeps_exit [of 0 ?reaped launch_ok "''helper''" "[''search-name'']" None "[]"
      relaunched "[]" "0x100"]
  from t a(1,2) b have d: "exit relaunched = PK_SPAWN_EXIT_TYPE_SUCCESS" "\<not> finished relaunched"
    by simp_all
  with t c have "exit (snd (pk_spawn_check_child [] 4242 0x100 relaunched)) = PK_SPAWN_EXIT_TYPE_SUCCESS
    \<and> last (trace (snd (pk_spawn_check_child [] 4242 0x100 relaunched)))
       = Emit_exit PK_SPAWN_EXIT_TYPE_SUCCESS"
    by simp
  with a d show ?thesis by blast
qed

end
